theory Spec2Isabelle
  imports Main "HOL-Library.Multiset"
begin

section \<open>Strings of the host language\<close>

text \<open>
  A source string is modelled as a \<^typ>\<open>string\<close>, one \<^typ>\<open>char\<close> per code unit, for
  code units below 256. The white space of \<^verbatim>\<open>trim\<close> and of the pattern \<^verbatim>\<open>\s\<close> in that
  range is TAB, LF, VT, FF, CR, SPACE and NBSP; \<^verbatim>\<open>toLowerCase\<close> maps A-Z and the
  upper-case letters of the range 192-222 (215 apart) to the letter 32 places later.
\<close>

definition is_space :: "char \<Rightarrow> bool" where
  "is_space c = (let n = (of_char c :: nat) in (9 \<le> n \<and> n \<le> 13) \<or> n = 32 \<or> n = 160)"

definition trimStart :: "string \<Rightarrow> string" where
  "trimStart s = dropWhile is_space s"

definition trimEnd :: "string \<Rightarrow> string" where
  "trimEnd s = rev (dropWhile is_space (rev s))"

definition trim :: "string \<Rightarrow> string" where
  "trim s = trimEnd (trimStart s)"

definition lower_char :: "char \<Rightarrow> char" where
  "lower_char c = (let n = (of_char c :: nat) in
     if (65 \<le> n \<and> n \<le> 90) \<or> (192 \<le> n \<and> n \<le> 222 \<and> n \<noteq> 215)
     then char_of (n + 32) else c)"

definition toLowerCase :: "string \<Rightarrow> string" where
  "toLowerCase s = map lower_char s"

fun startsWith :: "string \<Rightarrow> string \<Rightarrow> bool" where
  "startsWith s [] = True"
| "startsWith [] (p # ps) = False"
| "startsWith (c # cs) (p # ps) = (c = p \<and> startsWith cs ps)"

fun includes_str :: "string \<Rightarrow> string \<Rightarrow> bool" where
  "includes_str [] q = (q = [])"
| "includes_str (c # cs) q = (startsWith (c # cs) q \<or> includes_str cs q)"

text \<open>\<^verbatim>\<open>s.split(sep)\<close> for a one-character separator: the empty string gives one empty piece.\<close>

fun split :: "char \<Rightarrow> string \<Rightarrow> string list" where
  "split sep [] = [[]]"
| "split sep (c # cs) =
     (if c = sep then [] # split sep cs
      else (case split sep cs of [] \<Rightarrow> [[c]] | p # ps \<Rightarrow> (c # p) # ps))"

fun join :: "string \<Rightarrow> string list \<Rightarrow> string" where
  "join sep [] = []"
| "join sep [x] = x"
| "join sep (x # y # ys) = x @ sep @ join sep (y # ys)"

text \<open>\<^verbatim>\<open>s.split('/').filter(Boolean)\<close>: the non-empty pieces between slashes.\<close>

definition segments :: "string \<Rightarrow> string list" where
  "segments s = filter (\<lambda>p. p \<noteq> []) (split (CHR ''/'') s)"

text \<open>\<^verbatim>\<open>xs.slice(0, k)\<close>: a negative \<open>k\<close> counts from the end of the array.\<close>

definition slice0 :: "'a list \<Rightarrow> int \<Rightarrow> 'a list" where
  "slice0 xs k = (if k < 0 then take (nat (int (length xs) + k)) xs else take (nat k) xs)"

section \<open>Property reads on object literals\<close>

text \<open>
  The alias tables and the children of a directory are object literals read with
  \<^verbatim>\<open>obj[key]\<close>. Such a read finds the object's own property, and for a key the object
  does not have, a member the object inherits from \<^verbatim>\<open>Object.prototype\<close>: a function or
  an object, which is truthy and is neither a string nor a node.
\<close>

definition object_prototype_members :: "string list" where
  "object_prototype_members =
     [''constructor'', ''__proto__'', ''hasOwnProperty'', ''isPrototypeOf'',
      ''propertyIsEnumerable'', ''toLocaleString'', ''toString'', ''valueOf'',
      ''__defineGetter__'', ''__defineSetter__'', ''__lookupGetter__'', ''__lookupSetter__'']"

datatype 'a property = Own 'a | Inherited | Absent

definition get_property :: "(string \<times> 'a) list \<Rightarrow> string \<Rightarrow> 'a property" where
  "get_property obj key =
     (case map_of obj key of
        Some v \<Rightarrow> Own v
      | None \<Rightarrow> if key \<in> set object_prototype_members then Inherited else Absent)"

section \<open>The tokenizer (parser.ts)\<close>

text \<open>
  A command name is a string, or the member of \<^verbatim>\<open>Object.prototype\<close> that the alias table
  gave for the typed name.
\<close>

datatype name_value = Str string | ProtoMember string

record ParsedCommand =
  raw :: string
  commandName :: name_value
  args :: "string list"
  error :: "string option"

definition ALIASES :: "(string \<times> string) list" where
  "ALIASES = [(''?'', ''help''), (''dir'', ''ls''), (''goto'', ''cd''), (''read'', ''cat''),
              (''tldr'', ''summary'')]"

text \<open>\<^verbatim>\<open>table[rawCmd] || rawCmd\<close>: every alias is a non-empty string, hence truthy.\<close>

definition resolve_alias :: "(string \<times> string) list \<Rightarrow> string \<Rightarrow> name_value" where
  "resolve_alias table rawCmd =
     (case get_property table rawCmd of
        Own v \<Rightarrow> if v = [] then Str rawCmd else Str v
      | Inherited \<Rightarrow> ProtoMember rawCmd
      | Absent \<Rightarrow> Str rawCmd)"

record scan_state =
  tokens :: "string list"
  currentToken :: string
  insideQuote :: "char option"
  escaping :: bool

text \<open>One turn of the loop over the characters of the input.\<close>

definition scan_char :: "scan_state \<Rightarrow> char \<Rightarrow> scan_state" where
  "scan_char st c =
     (if escaping st then st\<lparr>currentToken := currentToken st @ [c], escaping := False\<rparr>
      else if c = CHR 0x5C then st\<lparr>escaping := True\<rparr>
      else (case insideQuote st of
              Some q \<Rightarrow>
                if c = q then st\<lparr>insideQuote := None\<rparr>
                else st\<lparr>currentToken := currentToken st @ [c]\<rparr>
            | None \<Rightarrow>
                if c = CHR 0x22 \<or> c = CHR 0x27 then st\<lparr>insideQuote := Some c\<rparr>
                else if is_space c then
                  (if length (currentToken st) > 0
                   then st\<lparr>tokens := tokens st @ [currentToken st], currentToken := []\<rparr>
                   else st)
                else st\<lparr>currentToken := currentToken st @ [c]\<rparr>))"

fun scan :: "scan_state \<Rightarrow> string \<Rightarrow> scan_state" where
  "scan st [] = st"
| "scan st (c # cs) = scan (scan_char st c) cs"

definition scan_init :: scan_state where
  "scan_init = \<lparr>tokens = [], currentToken = [], insideQuote = None, escaping = False\<rparr>"

definition parseCommand :: "string \<Rightarrow> ParsedCommand option" where
  "parseCommand input =
     (if input = [] \<or> length (trim input) = 0 then None
      else let st = scan scan_init input in
        if insideQuote st \<noteq> None
        then Some \<lparr>raw = input, commandName = Str [], args = [],
                   error = Some ''Unclosed quote found.''\<rparr>
        else let toks = (if length (currentToken st) > 0
                         then tokens st @ [currentToken st] else tokens st) in
          (case toks of
             [] \<Rightarrow> None
           | t # ts \<Rightarrow>
               Some \<lparr>raw = input, commandName = resolve_alias ALIASES (toLowerCase t),
                     args = ts, error = None\<rparr>))"

text \<open>
  The quote that is open after a text, read from the words of the specification: a
  backslash takes the character after it out of consideration, a quote character outside
  a quotation opens one, and the same character closes it.
\<close>

definition quote_after :: "char option \<Rightarrow> char \<Rightarrow> char option" where
  "quote_after q c =
     (case q of
        Some opened \<Rightarrow> if c = opened then None else q
      | None \<Rightarrow> if c = CHR 0x22 \<or> c = CHR 0x27 then Some c else None)"

fun open_quote :: "char option \<Rightarrow> string \<Rightarrow> char option" where
  "open_quote q [] = q"
| "open_quote q [c] = (if c = CHR 0x5C then q else quote_after q c)"
| "open_quote q (c # d # cs) =
     (if c = CHR 0x5C then open_quote q cs else open_quote (quote_after q c) (d # cs))"

definition quote_open_at_end :: "string \<Rightarrow> bool" where
  "quote_open_at_end input = (open_quote None input \<noteq> None)"

section \<open>The content tree (fs\_types.ts)\<close>

record MetaInfo =
  title :: string
  date :: "string option"
  tags :: "string list option"
  description :: "string option"

text \<open>
  The children of a directory are kept in the order in which \<^verbatim>\<open>Object.entries\<close> lists
  them.
\<close>

datatype FSNode =
    FileNode string string MetaInfo "string option"
  | DirectoryNode string "(string \<times> FSNode) list" "MetaInfo option"

text \<open>
  What a walk of the tree holds in its cursor: a node, or the member of
  \<^verbatim>\<open>Object.prototype\<close> that a read of \<^verbatim>\<open>children[p]\<close> found; the latter has no
  \<^verbatim>\<open>type\<close>, \<^verbatim>\<open>meta\<close>, \<^verbatim>\<open>content\<close> or \<^verbatim>\<open>slug\<close>.
\<close>

datatype cursor = Node FSNode | Foreign

fun is_dir :: "cursor \<Rightarrow> bool" where
  "is_dir (Node (DirectoryNode n ch m)) = True"
| "is_dir c = False"

fun is_file :: "cursor \<Rightarrow> bool" where
  "is_file (Node (FileNode n s m c)) = True"
| "is_file c = False"

text \<open>\<^verbatim>\<open>cursor.children[p]\<close> for a cursor whose type is \<^verbatim>\<open>'dir'\<close>; None otherwise.\<close>

fun child :: "cursor \<Rightarrow> string \<Rightarrow> cursor option" where
  "child (Node (DirectoryNode n ch m)) p =
     (case get_property ch p of
        Own c \<Rightarrow> Some (Node c)
      | Inherited \<Rightarrow> Some Foreign
      | Absent \<Rightarrow> None)"
| "child c p = None"

fun meta_title :: "cursor \<Rightarrow> string option" where
  "meta_title (Node (FileNode n s m c)) = Some (title m)"
| "meta_title (Node (DirectoryNode n ch m)) = map_option title m"
| "meta_title Foreign = None"

section \<open>Path resolution and node lookup (Shell.tsx)\<close>

text \<open>The left fold over the segments: the stack grows at its end.\<close>

fun fold_parts :: "string list \<Rightarrow> string list \<Rightarrow> string list" where
  "fold_parts stack [] = stack"
| "fold_parts stack (p # ps) =
     (if p = ''.'' then fold_parts stack ps
      else if p = ''..'' then fold_parts (butlast stack) ps
      else fold_parts (stack @ [p]) ps)"

text \<open>The walk of \<^verbatim>\<open>resolvePath\<close>: False where the source returns null.\<close>

fun walk_stack :: "cursor \<Rightarrow> string list \<Rightarrow> bool" where
  "walk_stack c [] = True"
| "walk_stack c (p # ps) =
     (if \<not> is_dir c then False
      else (case child c p of None \<Rightarrow> False | Some c' \<Rightarrow> walk_stack c' ps))"

definition path_parts :: "string \<Rightarrow> string \<Rightarrow> string list" where
  "path_parts current target =
     (if startsWith target ''/'' then segments target
      else segments current @ segments target)"

definition resolvePath :: "FSNode \<Rightarrow> string \<Rightarrow> string \<Rightarrow> string option" where
  "resolvePath root current target =
     (if target = ''/'' \<or> target = ''~'' then Some ''/''
      else let stack = fold_parts [] (path_parts current target) in
        if walk_stack (Node root) stack then Some (''/'' @ join ''/'' stack) else None)"

text \<open>The loop of \<^verbatim>\<open>getNodeAtPath\<close>.\<close>

fun descend :: "cursor \<Rightarrow> string list \<Rightarrow> cursor option" where
  "descend c [] = Some c"
| "descend c (p # ps) =
     (if \<not> is_dir c then None
      else (case child c p of None \<Rightarrow> None | Some c' \<Rightarrow> descend c' ps))"

definition getNodeAtPath :: "FSNode \<Rightarrow> string \<Rightarrow> cursor option" where
  "getNodeAtPath root p =
     (if p = ''/'' \<or> p = [] then Some (Node root) else descend (Node root) (segments p))"

section \<open>Host functions and sorting\<close>

text \<open>
  The host functions the shell calls and that are not part of the repository:
  \<^verbatim>\<open>String.prototype.localeCompare\<close> (negative, zero or positive),
  \<^verbatim>\<open>Math.floor(Number(v))\<close> where \<^verbatim>\<open>Number(v)\<close> is finite (None otherwise), and the
  printing of a number in a template string.
\<close>

record host =
  localeCompare :: "string \<Rightarrow> string \<Rightarrow> int"
  numberFloor :: "string \<Rightarrow> int option"
  numberToString :: "nat \<Rightarrow> string"

text \<open>
  \<^verbatim>\<open>Array.prototype.sort\<close> is stable; for a comparator that is a consistent order its
  result is the one of a stable insertion sort.
\<close>

fun insert_by :: "('a \<Rightarrow> 'a \<Rightarrow> int) \<Rightarrow> 'a \<Rightarrow> 'a list \<Rightarrow> 'a list" where
  "insert_by cmp x [] = [x]"
| "insert_by cmp x (y # ys) = (if cmp x y \<le> 0 then x # y # ys else y # insert_by cmp x ys)"

fun sort_by :: "('a \<Rightarrow> 'a \<Rightarrow> int) \<Rightarrow> 'a list \<Rightarrow> 'a list" where
  "sort_by cmp [] = []"
| "sort_by cmp (x # xs) = insert_by cmp x (sort_by cmp xs)"

definition compare_children :: "host \<Rightarrow> string \<times> FSNode \<Rightarrow> string \<times> FSNode \<Rightarrow> int" where
  "compare_children h a b =
     (if is_dir (Node (snd a)) \<noteq> is_dir (Node (snd b))
      then (if is_dir (Node (snd a)) then - 1 else 1)
      else localeCompare h (fst a) (fst b))"

fun getSortedChildren :: "host \<Rightarrow> cursor \<Rightarrow> (string \<times> FSNode) list" where
  "getSortedChildren h (Node (DirectoryNode n ch m)) = sort_by (compare_children h) ch"
| "getSortedChildren h c = []"

section \<open>The fuzzy ranking engine (Shell.tsx)\<close>

definition AUTOCOMPLETE_COMMANDS :: "string list" where
  "AUTOCOMPLETE_COMMANDS =
     [''help'', ''cd'', ''ls'', ''open'', ''cat'', ''search'', ''tree'', ''home'', ''back'',
      ''clear'', ''summary'', ''pwd'']"

definition getMaxEditDistance :: "nat \<Rightarrow> nat" where
  "getMaxEditDistance queryLength =
     (if queryLength \<le> 4 then 2 else if queryLength \<le> 8 then 3 else 4)"

text \<open>
  The inner loop over \<open>j\<close>: \<open>bs\<close> are the characters of \<open>b\<close> from position \<open>j - 1\<close>,
  \<open>prev\<close> is the previous row from position \<open>j - 1\<close>, and \<open>left\<close> is \<open>nextRow[j - 1]\<close>;
  the result is the next row from position \<open>j\<close>.
\<close>

fun fill_row :: "char \<Rightarrow> string \<Rightarrow> nat list \<Rightarrow> nat \<Rightarrow> nat list" where
  "fill_row aChar (bChar # bs) (diag # up # prev) left =
     (let cost = (if aChar = bChar then 0 else 1);
          v = min (min (up + 1) (left + 1)) (diag + cost)
      in v # fill_row aChar bs (up # prev) v)"
| "fill_row aChar bs prev left = []"

text \<open>The outer loop over \<open>i\<close>: \<open>as\<close> are the characters of \<open>a\<close> from position \<open>i - 1\<close>.\<close>

fun rows_loop :: "string \<Rightarrow> string \<Rightarrow> nat \<Rightarrow> nat list \<Rightarrow> nat list" where
  "rows_loop [] b i prevRow = prevRow"
| "rows_loop (aChar # as) b i prevRow = rows_loop as b (i + 1) (i # fill_row aChar b prevRow i)"

definition levenshteinDistance :: "string \<Rightarrow> string \<Rightarrow> nat" where
  "levenshteinDistance a b =
     (if a = b then 0
      else if length a = 0 then length b
      else if length b = 0 then length a
      else last (rows_loop a b 1 [0 ..< length b + 1]))"

record rank_row =
  candidate :: string
  row_startsWith :: bool
  row_includes :: bool
  distance :: nat
  score :: nat

definition make_row :: "string \<Rightarrow> string \<Rightarrow> rank_row" where
  "make_row normalizedQuery cand =
     (let normalizedCandidate = toLowerCase cand;
          sw = startsWith normalizedCandidate normalizedQuery;
          inc = includes_str normalizedCandidate normalizedQuery;
          dist = levenshteinDistance normalizedQuery normalizedCandidate;
          grp = (if sw then 0 else if inc then 1 else 2)
      in \<lparr>candidate = cand, row_startsWith = sw, row_includes = inc, distance = dist,
          score = grp * 100 + dist\<rparr>)"

definition compare_rows :: "host \<Rightarrow> rank_row \<Rightarrow> rank_row \<Rightarrow> int" where
  "compare_rows h a b =
     (if int (score a) - int (score b) \<noteq> 0 then int (score a) - int (score b)
      else localeCompare h (candidate a) (candidate b))"

definition eligible :: "nat \<Rightarrow> rank_row \<Rightarrow> bool" where
  "eligible maxDistance r = (row_startsWith r \<or> row_includes r \<or> distance r \<le> maxDistance)"

definition rankCandidates :: "host \<Rightarrow> string \<Rightarrow> string list \<Rightarrow> int \<Rightarrow> string list" where
  "rankCandidates h query candidates limit =
     (let normalizedQuery = toLowerCase (trim query) in
      if length normalizedQuery = 0 then slice0 candidates limit
      else let maxDistance = getMaxEditDistance (length normalizedQuery) in
        map candidate
          (slice0
             (sort_by (compare_rows h)
                (filter (eligible maxDistance) (map (make_row normalizedQuery) candidates)))
             limit))"

section \<open>The display log and the session state (Output.tsx, Shell.tsx)\<close>

text \<open>
  A log entry carries its tag and its content. The \<^verbatim>\<open>id\<close> of an entry is built from the
  clock and is read by no function of the shell; it is left out, as is the unused
  \<^verbatim>\<open>timestamp\<close>. Rendered content is kept as a description of what is rendered.
\<close>

datatype item_type = Command | Output | Error | Banner

record FixSuggestion =
  fix_command :: string
  fix_label :: string

datatype canned =
    PleaseAnswer | TakeYourTime | ExperienceQuestion | Splendid | StartSimple
  | Greeting | HelpGrid | QuickStart

text \<open>
  \<open>Listing\<close> is the row of names (with the directory flag) that \<^verbatim>\<open>ls\<close> renders,
  \<open>SearchResults root term\<close> what \<^verbatim>\<open>search\<close> renders for its walk of the tree, and
  \<open>TreeText node displayName maxDepth\<close> the text of \<^verbatim>\<open>buildTreeText\<close>.
\<close>

datatype content =
    Text string
  | ErrorContent string "FixSuggestion list"
  | DefaultBannerArt
  | Canned canned
  | Listing "(string \<times> bool) list"
  | SearchResults FSNode string
  | TreeText cursor string nat

record HistoryItem =
  item_type :: item_type
  content :: content
  path :: "string option"

record ShellState =
  history :: "HistoryItem list"
  commandHistory :: "string list"
  cwds :: "string list"
  currentCwd :: string

datatype Action =
    ADD_HISTORY HistoryItem
  | CLEAR_HISTORY
  | ADD_COMMAND string
  | SET_CWD string
  | GO_BACK
  | REPLACE_STATE ShellState

definition defaultBanner :: HistoryItem where
  "defaultBanner = \<lparr>item_type = Banner, content = DefaultBannerArt, path = None\<rparr>"

text \<open>\<^verbatim>\<open>v || '/'\<close> on an optional string: undefined and the empty string give the default.\<close>

definition or_default :: "string option \<Rightarrow> string \<Rightarrow> string" where
  "or_default v d = (case v of None \<Rightarrow> d | Some s \<Rightarrow> if s = [] then d else s)"

definition getInitialState :: "HistoryItem list option \<Rightarrow> string option \<Rightarrow> ShellState" where
  "getInitialState initialHistory initialCwd =
     \<lparr>history = (case initialHistory of None \<Rightarrow> [defaultBanner] | Some h \<Rightarrow> h),
      commandHistory = [],
      cwds = [or_default initialCwd ''/''],
      currentCwd = or_default initialCwd ''/''\<rparr>"

fun shellReducer :: "ShellState \<Rightarrow> Action \<Rightarrow> ShellState" where
  "shellReducer state (ADD_HISTORY item) = state\<lparr>history := history state @ [item]\<rparr>"
| "shellReducer state CLEAR_HISTORY =
     state\<lparr>history :=
       (let banners = filter (\<lambda>item. item_type item = Banner) (history state)
        in if length banners > 0 then banners else [defaultBanner])\<rparr>"
| "shellReducer state (ADD_COMMAND cmd) = state\<lparr>commandHistory := commandHistory state @ [cmd]\<rparr>"
| "shellReducer state (SET_CWD p) = state\<lparr>currentCwd := p, cwds := cwds state @ [p]\<rparr>"
| "shellReducer state GO_BACK =
     (if length (cwds state) \<le> 1 then state
      else let newCwds = butlast (cwds state)
           in state\<lparr>cwds := newCwds, currentCwd := last newCwds\<rparr>)"
| "shellReducer state (REPLACE_STATE newState) = newState"

text \<open>The transitions named by the session state machine: every action but the replacement.\<close>

fun defined_transition :: "Action \<Rightarrow> bool" where
  "defined_transition (REPLACE_STATE s) = False"
| "defined_transition a = True"

inductive reachable :: "ShellState \<Rightarrow> bool" where
  init: "reachable (getInitialState initialHistory initialCwd)"
| step: "reachable s \<Longrightarrow> defined_transition a \<Longrightarrow> reachable (shellReducer s a)"

definition cwd_invariant :: "ShellState \<Rightarrow> bool" where
  "cwd_invariant s = (cwds s \<noteq> [] \<and> currentCwd s = last (cwds s))"

section \<open>Did-you-mean suggestions for paths (Shell.tsx)\<close>

datatype suggestion_kind = KCommand | KDir | KFile

record AutocompleteSuggestion =
  kind :: suggestion_kind
  insertText :: string
  label :: string

datatype PathCompletionMode = MDir | MFile | MBoth

fun lastIndexOf :: "char \<Rightarrow> string \<Rightarrow> nat option" where
  "lastIndexOf c [] = None"
| "lastIndexOf c (x # xs) =
     (case lastIndexOf c xs of
        Some i \<Rightarrow> Some (Suc i)
      | None \<Rightarrow> if x = c then Some 0 else None)"

fun indexOf :: "char \<Rightarrow> string \<Rightarrow> nat option" where
  "indexOf c [] = None"
| "indexOf c (x # xs) = (if x = c then Some 0 else map_option Suc (indexOf c xs))"

text \<open>A value that is a string or absent, seen as a condition: the empty string is falsy.\<close>

definition truthy :: "string option \<Rightarrow> string option" where
  "truthy v = (case v of None \<Rightarrow> None | Some s \<Rightarrow> if s = [] then None else Some s)"

text \<open>
  The separator of a name and its title in a label: an em dash between two spaces. The
  em dash (U+2014) is not a code unit below 256; it is written here by the three bytes of
  its UTF-8 encoding.
\<close>

definition title_separator :: string where
  "title_separator = '' '' @ [CHR 0xE2, CHR 0x80, CHR 0x94] @ '' ''"

definition suggestion_for :: "string \<Rightarrow> string \<Rightarrow> cursor \<Rightarrow> AutocompleteSuggestion" where
  "suggestion_for prefixForRebuild name childNode =
     (let suffix = (if is_dir childNode then ''/'' else []);
          ins = prefixForRebuild @ name @ suffix;
          lab = (case truthy (meta_title childNode) of
                   Some t \<Rightarrow> if t \<noteq> name then ins @ title_separator @ t else ins
                 | None \<Rightarrow> ins)
      in \<lparr>kind = (if is_dir childNode then KDir else KFile), insertText = ins, label = lab\<rparr>)"

definition mode_accepts :: "PathCompletionMode \<Rightarrow> FSNode \<Rightarrow> bool" where
  "mode_accepts mode childNode =
     (case mode of
        MDir \<Rightarrow> is_dir (Node childNode)
      | MFile \<Rightarrow> is_file (Node childNode)
      | MBoth \<Rightarrow> True)"

definition buildPathFuzzySuggestions ::
  "host \<Rightarrow> FSNode \<Rightarrow> string \<Rightarrow> string \<Rightarrow> PathCompletionMode \<Rightarrow> AutocompleteSuggestion list" where
  "buildPathFuzzySuggestions h root cwd token mode =
     (let lastSlashIndex = lastIndexOf (CHR ''/'') token;
          prefixForRebuild = (case lastSlashIndex of None \<Rightarrow> [] | Some i \<Rightarrow> take (i + 1) token);
          dirToken = (case lastSlashIndex of None \<Rightarrow> [] | Some i \<Rightarrow> take i token);
          baseQuery = (case lastSlashIndex of None \<Rightarrow> token | Some i \<Rightarrow> drop (i + 1) token);
          dirArg = (if dirToken = [] then (if startsWith token ''/'' then ''/'' else ''.'')
                    else dirToken)
      in case truthy (resolvePath root cwd dirArg) of
           None \<Rightarrow> []
         | Some resolvedDirPath \<Rightarrow>
             (case getNodeAtPath root resolvedDirPath of
                None \<Rightarrow> []
              | Some dirNode \<Rightarrow>
                  if \<not> is_dir dirNode then []
                  else let candidates =
                             map fst (filter (\<lambda>e. mode_accepts mode (snd e))
                               (getSortedChildren h dirNode));
                           rankedNames =
                             (if length (trim baseQuery) = 0 then slice0 candidates 6
                              else rankCandidates h baseQuery candidates 6)
                       in concat (map (\<lambda>name.
                            (case child dirNode name of
                               None \<Rightarrow> []
                             | Some childNode \<Rightarrow> [suggestion_for prefixForRebuild name childNode]))
                            rankedNames)))"

section \<open>The command dispatcher (Shell.tsx)\<close>

datatype wizard_step = WNone | WStart | WExperience

text \<open>
  The shell: the reducer's state and the component's own state and references that
  \<^verbatim>\<open>execute\<close> reads or writes.
\<close>

record Shell =
  state :: ShellState
  helpWizardStep :: wizard_step
  helpWizardSeen :: bool
  hasUsedOpen :: bool
  lastOpenedFilePath :: "string option"
  historyPointer :: "nat option"

text \<open>
  What \<^verbatim>\<open>execute\<close> does, in the order in which it does it: a dispatch to the reducer, a
  write of the component's state or references, a notification of a collaborator, and the
  \<^verbatim>\<open>TypeError\<close> of a call of \<^verbatim>\<open>trim\<close> on a value that is not a string, which ends the
  handler.
\<close>

datatype effect =
    Dispatch Action
  | SetHistoryPointer "nat option"
  | SetHelpWizardStep wizard_step
  | SetHelpWizardSeen bool
  | SetHasUsedOpen bool
  | SetLastOpenedFilePath string
  | PushUrl string
  | Highlight string "string option"
  | ThrowTypeError

definition mk_fix :: "string \<Rightarrow> string \<Rightarrow> FixSuggestion" where
  "mk_fix c l = \<lparr>fix_command = c, fix_label = l\<rparr>"

definition buildErrorContent :: "string \<Rightarrow> FixSuggestion list \<Rightarrow> content" where
  "buildErrorContent message fixes = ErrorContent message (slice0 fixes 4)"

definition addError :: "string \<Rightarrow> FixSuggestion list \<Rightarrow> effect" where
  "addError message fixes =
     Dispatch (ADD_HISTORY \<lparr>item_type = Error, content = buildErrorContent message fixes,
                             path = None\<rparr>)"

definition addOutput :: "content \<Rightarrow> effect" where
  "addOutput c = Dispatch (ADD_HISTORY \<lparr>item_type = Output, content = c, path = None\<rparr>)"

definition pushUrl :: "string \<Rightarrow> effect" where
  "pushUrl p =
     PushUrl (if p = ''/'' then ''/'' else rev (dropWhile (\<lambda>c. c = CHR ''/'') (rev p)))"

definition path_fixes ::
  "host \<Rightarrow> FSNode \<Rightarrow> string \<Rightarrow> string \<Rightarrow> PathCompletionMode \<Rightarrow> string \<Rightarrow> FixSuggestion list" where
  "path_fixes h root cwd target mode pre =
     map (\<lambda>s. mk_fix (pre @ insertText s) (pre @ label s))
       (buildPathFuzzySuggestions h root cwd target mode)"

definition or_fixes :: "FixSuggestion list \<Rightarrow> FixSuggestion list \<Rightarrow> FixSuggestion list" where
  "or_fixes fixes fallback = (if length fixes > 0 then fixes else fallback)"

definition help_wizard :: "wizard_step \<Rightarrow> string \<Rightarrow> effect list" where
  "help_wizard step rawLine =
     (let answer = toLowerCase (trim rawLine);
          isYes = (answer = ''y'' \<or> answer = ''yes'');
          isNo = (answer = ''n'' \<or> answer = ''no'')
      in if \<not> isYes \<and> \<not> isNo then [addOutput (Canned PleaseAnswer)]
         else (case step of
                 WStart \<Rightarrow>
                   if isNo then [addOutput (Canned TakeYourTime), SetHelpWizardStep WNone]
                   else [SetHelpWizardSeen True, addOutput (Canned ExperienceQuestion),
                         SetHelpWizardStep WExperience]
               | WExperience \<Rightarrow>
                   if isYes then [addOutput (Canned Splendid), SetHelpWizardStep WNone]
                   else [addOutput (Canned StartSimple), SetHelpWizardStep WNone]
               | WNone \<Rightarrow> []))"

definition runHelp :: "Shell \<Rightarrow> effect list" where
  "runHelp sh =
     (if \<not> helpWizardSeen sh \<and> helpWizardStep sh = WNone
      then [SetHelpWizardStep WStart, addOutput (Canned Greeting)]
      else [addOutput (Canned HelpGrid)])"

definition runHome :: "effect list" where
  "runHome = [Dispatch (SET_CWD ''/''), pushUrl ''/'']"

definition runCd :: "host \<Rightarrow> FSNode \<Rightarrow> ShellState \<Rightarrow> string list \<Rightarrow> effect list" where
  "runCd h root st as =
     (let target = (case as of [] \<Rightarrow> ''/'' | a # rest \<Rightarrow> if a = [] then ''/'' else a);
          notFound = addError (''cd: no such file or directory: '' @ target)
            (or_fixes (path_fixes h root (currentCwd st) target MDir ''cd '')
               [mk_fix ''ls'' ''ls'', mk_fix ''pwd'' ''pwd''])
      in case truthy (resolvePath root (currentCwd st) target) of
           None \<Rightarrow> [notFound]
         | Some newPath \<Rightarrow>
             (case getNodeAtPath root newPath of
                None \<Rightarrow> [notFound]
              | Some node \<Rightarrow>
                  if \<not> is_dir node
                  then [addError (''cd: not a directory: '' @ target)
                          [mk_fix (''open '' @ target) (''open '' @ target),
                           mk_fix (''cat '' @ target) (''cat '' @ target)]]
                  else [Dispatch (SET_CWD newPath), pushUrl newPath]))"

definition runLs :: "host \<Rightarrow> FSNode \<Rightarrow> ShellState \<Rightarrow> effect list" where
  "runLs h root st =
     (case getNodeAtPath root (currentCwd st) of
        None \<Rightarrow> [addError (''ls: not a directory: '' @ currentCwd st) []]
      | Some node \<Rightarrow>
          if \<not> is_dir node then [addError (''ls: not a directory: '' @ currentCwd st) []]
          else [addOutput (Listing (map (\<lambda>e. (fst e, is_dir (Node (snd e))))
                  (getSortedChildren h node)))])"

definition runPwd :: "ShellState \<Rightarrow> effect list" where
  "runPwd st = [addOutput (Text (currentCwd st))]"

definition runBack :: "ShellState \<Rightarrow> effect list" where
  "runBack st =
     (if length (cwds st) \<le> 1 then [addError ''Already at root of session.'' []]
      else let nextPath = or_default (Some (cwds st ! (length (cwds st) - 2))) ''/''
           in [Dispatch GO_BACK, pushUrl nextPath])"

definition nth_opt :: "'a list \<Rightarrow> nat \<Rightarrow> 'a option" where
  "nth_opt xs i = (if i < length xs then Some (xs ! i) else None)"

definition parseDepthArg :: "host \<Rightarrow> string option \<Rightarrow> nat option" where
  "parseDepthArg h v =
     (case truthy v of
        None \<Rightarrow> None
      | Some s \<Rightarrow> (case numberFloor h s of None \<Rightarrow> None | Some d \<Rightarrow> Some (nat (max 0 d))))"

text \<open>
  The arguments of \<^verbatim>\<open>tree\<close>: the path argument, the depth and whether the depth was
  given; None where the source reports the usage error.
\<close>

definition tree_arguments :: "host \<Rightarrow> string list \<Rightarrow> (string option \<times> nat \<times> bool) option" where
  "tree_arguments h as =
     (if nth_opt as 0 = Some ''-L'' \<or> nth_opt as 0 = Some ''--depth'' then
        (case parseDepthArg h (nth_opt as 1) of
           None \<Rightarrow> None
         | Some d \<Rightarrow> Some (nth_opt as 2, d, True))
      else if length as = 1 then
        (case parseDepthArg h (nth_opt as 0) of
           Some d \<Rightarrow> Some (None, d, True)
         | None \<Rightarrow> Some (nth_opt as 0, 4, False))
      else if length as \<ge> 2 then
        (case parseDepthArg h (nth_opt as 0) of
           Some d \<Rightarrow> Some (nth_opt as 1, d, True)
         | None \<Rightarrow>
             (case parseDepthArg h (nth_opt as 1) of
                Some d \<Rightarrow> Some (nth_opt as 0, d, True)
              | None \<Rightarrow> Some (nth_opt as 0, 4, False)))
      else Some (None, 4, False))"

text \<open>A value in a template string: an absent one prints as \<^verbatim>\<open>undefined\<close>.\<close>

definition show_optional :: "string option \<Rightarrow> string" where
  "show_optional v = (case v of None \<Rightarrow> ''undefined'' | Some s \<Rightarrow> s)"

definition runTree :: "host \<Rightarrow> FSNode \<Rightarrow> ShellState \<Rightarrow> string list \<Rightarrow> effect list" where
  "runTree h root st as =
     (case tree_arguments h as of
        None \<Rightarrow>
          [addError ''Usage: tree [-L depth] [path]''
             [mk_fix ''tree'' ''tree'', mk_fix ''tree -L 4'' ''tree -L 4'']]
      | Some (targetPathArg, maxDepth, depthWasExplicit) \<Rightarrow>
          (let resolvedPath = (case truthy targetPathArg of
                                 Some t \<Rightarrow> resolvePath root (currentCwd st) t
                               | None \<Rightarrow> Some (currentCwd st));
               basePrefix = (if depthWasExplicit
                             then ''tree -L '' @ numberToString h maxDepth @ '' ''
                             else ''tree '');
               fixes = (case truthy targetPathArg of
                          Some t \<Rightarrow> path_fixes h root (currentCwd st) t MBoth basePrefix
                        | None \<Rightarrow> []);
               fallback = [mk_fix ''tree'' ''tree'', mk_fix ''ls'' ''ls'']
           in case truthy resolvedPath of
                None \<Rightarrow>
                  [addError (''tree: no such file or directory: '' @ show_optional targetPathArg)
                     (or_fixes fixes fallback)]
              | Some rp \<Rightarrow>
                  (case getNodeAtPath root rp of
                     None \<Rightarrow>
                       [addError (''tree: no such file or directory: '' @
                            (case targetPathArg of None \<Rightarrow> rp | Some t \<Rightarrow> t))
                          (or_fixes fixes fallback)]
                   | Some node \<Rightarrow>
                       (let displayName =
                              (if rp = ''/'' then ''/''
                               else (case segments rp of [] \<Rightarrow> rp | s # ss \<Rightarrow> last (s # ss)))
                        in [addOutput (TreeText node displayName maxDepth)]))))"

definition runSummary :: "effect list" where
  "runSummary = [addOutput (Canned QuickStart)]"

definition getParentDirPath :: "string \<Rightarrow> string" where
  "getParentDirPath absolutePath =
     (if absolutePath = ''/'' then ''/''
      else let parts = butlast (segments absolutePath)
           in if length parts = 0 then ''/'' else ''/'' @ join ''/'' parts)"

text \<open>\<^verbatim>\<open>file.content || '(Empty file)'\<close> and \<^verbatim>\<open>file.slug\<close> in a template string.\<close>

fun content_or_empty :: "cursor \<Rightarrow> string" where
  "content_or_empty (Node (FileNode n s m c)) =
     (case truthy c of None \<Rightarrow> ''(Empty file)'' | Some t \<Rightarrow> t)"
| "content_or_empty c = ''(Empty file)''"

fun slug_of :: "cursor \<Rightarrow> string" where
  "slug_of (Node (FileNode n s m c)) = s"
| "slug_of c = ''undefined''"

definition runOpen :: "host \<Rightarrow> FSNode \<Rightarrow> Shell \<Rightarrow> string list \<Rightarrow> effect list" where
  "runOpen h root sh as =
     (case truthy (nth_opt as 0) of
        None \<Rightarrow>
          [addError ''Usage: open <path>''
             [mk_fix ''open '' ''open <path>'', mk_fix ''ls'' ''ls'', mk_fix ''tree'' ''tree'']]
      | Some target \<Rightarrow>
          (let cwd = currentCwd (state sh);
               notFound = addError (''open: '' @ target @ '': No such file or directory'')
                 (or_fixes (path_fixes h root cwd target MBoth ''open '')
                    [mk_fix ''ls'' ''ls'', mk_fix ''tree'' ''tree''])
           in case truthy (resolvePath root cwd target) of
                None \<Rightarrow> [notFound]
              | Some p \<Rightarrow>
                  (case getNodeAtPath root p of
                     None \<Rightarrow> [notFound]
                   | Some node \<Rightarrow>
                       if is_dir node
                       then [Dispatch (SET_CWD p), pushUrl p, Highlight p (lastOpenedFilePath sh)]
                       else [addOutput (Text (content_or_empty node)),
                             pushUrl (''/'' @ slug_of node),
                             SetLastOpenedFilePath p,
                             Highlight (getParentDirPath p) (Some p)])))"

definition runCat :: "host \<Rightarrow> FSNode \<Rightarrow> ShellState \<Rightarrow> string list \<Rightarrow> effect list" where
  "runCat h root st as =
     (case truthy (nth_opt as 0) of
        None \<Rightarrow>
          [addError ''Usage: cat <filename>''
             [mk_fix ''cat '' ''cat <filename>'', mk_fix ''ls'' ''ls'',
              mk_fix ''open '' ''open <path>'']]
      | Some target \<Rightarrow>
          (let notFound = addError (''cat: '' @ target @ '': No such file'')
                 (or_fixes (path_fixes h root (currentCwd st) target MFile ''cat '')
                    [mk_fix ''ls'' ''ls'', mk_fix ''open '' ''open <path>''])
           in case truthy (resolvePath root (currentCwd st) target) of
                None \<Rightarrow> [notFound]
              | Some p \<Rightarrow>
                  (case getNodeAtPath root p of
                     None \<Rightarrow> [notFound]
                   | Some node \<Rightarrow>
                       if is_dir node
                       then [addError (''cat: '' @ target @ '': Is a directory'')
                               [mk_fix (''ls '' @ target) (''ls '' @ target),
                                mk_fix (''open '' @ target) (''open '' @ target)]]
                       else [addOutput (Text (content_or_empty node))])))"

definition runSearch :: "FSNode \<Rightarrow> string list \<Rightarrow> effect list" where
  "runSearch root as =
     (let term = toLowerCase (join '' '' as)
      in if term = []
         then [addError ''Usage: search <term>''
                 [mk_fix ''search '' ''search <term>'', mk_fix ''summary'' ''summary'',
                  mk_fix ''help'' ''help'']]
         else [addOutput (SearchResults root term)])"

text \<open>
  The default case of the switch. A command name that is not a string reaches
  \<^verbatim>\<open>rankCandidates\<close>, whose first statement calls \<^verbatim>\<open>trim\<close> on it.
\<close>

definition runDefault :: "host \<Rightarrow> string \<Rightarrow> name_value \<Rightarrow> effect list" where
  "runDefault h rawLine cn =
     (case cn of
        ProtoMember k \<Rightarrow> [ThrowTypeError]
      | Str name \<Rightarrow>
          (let rawTrimStart = trimStart rawLine;
               rest = (case indexOf (CHR '' '') rawTrimStart of
                         None \<Rightarrow> []
                       | Some firstSpace \<Rightarrow> drop firstSpace rawTrimStart);
               candidates = rankCandidates h name AUTOCOMPLETE_COMMANDS 4;
               fixes = (if length candidates > 0
                        then map (\<lambda>c. mk_fix (c @ rest) (c @ rest)) candidates
                        else [mk_fix ''help'' ''help''])
           in [addError (''Command '' @ [CHR 0x27] @ name @ [CHR 0x27] @ '' not found.'') fixes]))"

definition dispatch_command ::
  "host \<Rightarrow> FSNode \<Rightarrow> Shell \<Rightarrow> string \<Rightarrow> ParsedCommand \<Rightarrow> effect list" where
  "dispatch_command h root sh rawLine parsed =
     (let cn = commandName parsed; as = args parsed; st = state sh in
      if cn = Str ''help'' then runHelp sh
      else if cn = Str ''clear'' then [Dispatch CLEAR_HISTORY]
      else if cn = Str ''home'' then runHome
      else if cn = Str ''cd'' then runCd h root st as
      else if cn = Str ''ls'' then runLs h root st
      else if cn = Str ''pwd'' then runPwd st
      else if cn = Str ''back'' then runBack st
      else if cn = Str ''tree'' then runTree h root st as
      else if cn = Str ''open'' then SetHasUsedOpen True # runOpen h root sh as
      else if cn = Str ''cat'' then runCat h root st as
      else if cn = Str ''search'' then runSearch root as
      else if cn = Str ''summary'' then runSummary
      else runDefault h rawLine cn)"

text \<open>
  The body of \<^verbatim>\<open>execute\<close> after the echo of the line, and \<^verbatim>\<open>execute\<close>. The handler
  reads the shell as it was rendered last (\<open>sh\<close>); what it dispatches and writes takes
  effect after it, in the order of the list.
\<close>

definition after_echo :: "host \<Rightarrow> FSNode option \<Rightarrow> Shell \<Rightarrow> string \<Rightarrow> effect list" where
  "after_echo h fs sh rawLine =
     (case parseCommand rawLine of
        None \<Rightarrow> []
      | Some parsed \<Rightarrow>
          (case truthy (error parsed) of
             Some e \<Rightarrow>
               [Dispatch (ADD_HISTORY \<lparr>item_type = Error, content = Text e, path = None\<rparr>)]
           | None \<Rightarrow>
               if helpWizardStep sh \<noteq> WNone then help_wizard (helpWizardStep sh) rawLine
               else (case fs of
                       None \<Rightarrow> [addError ''FileSystem not loaded.'' []]
                     | Some root \<Rightarrow> dispatch_command h root sh rawLine parsed)))"

definition execute :: "host \<Rightarrow> FSNode option \<Rightarrow> Shell \<Rightarrow> string \<Rightarrow> effect list" where
  "execute h fs sh rawLine =
     (if trim rawLine = [] then []
      else [Dispatch (ADD_HISTORY \<lparr>item_type = Command, content = Text rawLine,
                                     path = Some (currentCwd (state sh))\<rparr>),
            Dispatch (ADD_COMMAND rawLine),
            SetHistoryPointer None] @ after_echo h fs sh rawLine)"

text \<open>
  The effects of a handler on the shell. The reducer takes the dispatched actions in
  their order; the notifications of the collaborators do not touch the shell, and the
  updates queued before a \<^verbatim>\<open>TypeError\<close> stay applied.
\<close>

fun apply_effect :: "Shell \<Rightarrow> effect \<Rightarrow> Shell" where
  "apply_effect sh (Dispatch a) = sh\<lparr>state := shellReducer (state sh) a\<rparr>"
| "apply_effect sh (SetHistoryPointer p) = sh\<lparr>historyPointer := p\<rparr>"
| "apply_effect sh (SetHelpWizardStep w) = sh\<lparr>helpWizardStep := w\<rparr>"
| "apply_effect sh (SetHelpWizardSeen b) = sh\<lparr>helpWizardSeen := b\<rparr>"
| "apply_effect sh (SetHasUsedOpen b) = sh\<lparr>hasUsedOpen := b\<rparr>"
| "apply_effect sh (SetLastOpenedFilePath p) = sh\<lparr>lastOpenedFilePath := Some p\<rparr>"
| "apply_effect sh (PushUrl u) = sh"
| "apply_effect sh (Highlight d f) = sh"
| "apply_effect sh ThrowTypeError = sh"

definition submit :: "host \<Rightarrow> FSNode option \<Rightarrow> Shell \<Rightarrow> string \<Rightarrow> Shell" where
  "submit h fs sh rawLine = foldl apply_effect sh (execute h fs sh rawLine)"

fun run :: "host \<Rightarrow> FSNode option \<Rightarrow> Shell \<Rightarrow> string list \<Rightarrow> Shell" where
  "run h fs sh [] = sh"
| "run h fs sh (l # ls) = run h fs (submit h fs sh l) ls"

definition initialShell :: "HistoryItem list option \<Rightarrow> string option \<Rightarrow> Shell" where
  "initialShell initialHistory initialCwd =
     \<lparr>state = getInitialState initialHistory initialCwd,
      helpWizardStep = WNone, helpWizardSeen = False, hasUsedOpen = False,
      lastOpenedFilePath = None, historyPointer = None\<rparr>"

text \<open>An effect that appends an error entry to the display log.\<close>

fun is_error_effect :: "effect \<Rightarrow> bool" where
  "is_error_effect (Dispatch (ADD_HISTORY item)) = (item_type item = Error)"
| "is_error_effect e = False"

definition echo_of :: "Shell \<Rightarrow> string \<Rightarrow> HistoryItem" where
  "echo_of sh rawLine =
     \<lparr>item_type = Command, content = Text rawLine, path = Some (currentCwd (state sh))\<rparr>"

text \<open>The twelve names of the switch of the dispatcher.\<close>

definition known_commands :: "string list" where
  "known_commands =
     [''help'', ''clear'', ''home'', ''cd'', ''ls'', ''pwd'', ''back'', ''tree'', ''open'',
      ''cat'', ''search'', ''summary'']"

section \<open>A host and a content tree for the closed examples\<close>

definition is_digit :: "char \<Rightarrow> bool" where
  "is_digit c = (48 \<le> (of_char c :: nat) \<and> (of_char c :: nat) \<le> 57)"

definition decimal_floor :: "string \<Rightarrow> int option" where
  "decimal_floor s =
     (if s \<noteq> [] \<and> list_all is_digit s
      then Some (int (foldl (\<lambda>acc c. 10 * acc + (of_char c - 48)) 0 s))
      else None)"

fun show_nat :: "nat \<Rightarrow> string" where
  "show_nat n =
     (if n < 10 then [char_of (48 + n)] else show_nat (n div 10) @ [char_of (48 + n mod 10)])"

fun compare_strings :: "string \<Rightarrow> string \<Rightarrow> int" where
  "compare_strings [] [] = 0"
| "compare_strings [] (d # ds) = - 1"
| "compare_strings (c # cs) [] = 1"
| "compare_strings (c # cs) (d # ds) =
     (if (of_char c :: nat) < of_char d then - 1
      else if (of_char d :: nat) < of_char c then 1
      else compare_strings cs ds)"

text \<open>
  The example host compares names by code unit, reads the depth of \<^verbatim>\<open>tree\<close> in decimal
  digits and prints numbers in decimal.
\<close>

definition example_host :: host where
  "example_host =
     \<lparr>localeCompare = compare_strings, numberFloor = decimal_floor, numberToString = show_nat\<rparr>"

text \<open>The tree that \<^verbatim>\<open>buildFileSystem\<close> (fs\_builder.ts) starts from.\<close>

definition example_root :: FSNode where
  "example_root =
     DirectoryNode []
       [(''books'', DirectoryNode ''books'' []
           (Some \<lparr>title = ''Book Collection'', date = None, tags = None, description = None\<rparr>)),
        (''about'', FileNode ''about'' ''about''
           \<lparr>title = ''About Me'', date = None, tags = None, description = Some ''Meta info''\<rparr>
           (Some (''# About Me'' @ [CHR 0x0A, CHR 0x0A] @
                  ''I am Uday. This is my digital garden.'')))]
       None"

section \<open>Notions used in the statements about the dispatcher\<close>

text \<open>A line that the tokenizer accepts, and one that reaches the switch of the dispatcher.\<close>

definition parsed_ok :: "string \<Rightarrow> ParsedCommand \<Rightarrow> bool" where
  "parsed_ok rawLine p = (parseCommand rawLine = Some p \<and> error p = None)"

definition dispatched :: "Shell \<Rightarrow> string \<Rightarrow> ParsedCommand \<Rightarrow> bool" where
  "dispatched sh rawLine p = (helpWizardStep sh = WNone \<and> parsed_ok rawLine p)"

text \<open>An execution ends in an error when it appends an error entry to the display log.\<close>

definition ends_in_error :: "host \<Rightarrow> FSNode option \<Rightarrow> Shell \<Rightarrow> string \<Rightarrow> bool" where
  "ends_in_error h fs sh rawLine = (\<exists>e \<in> set (execute h fs sh rawLine). is_error_effect e)"

text \<open>
  The onboarding detour is behind the shell once its first question has been answered
  yes: the flag is set and the first question is not pending.
\<close>

definition detour_done :: "Shell \<Rightarrow> bool" where
  "detour_done sh = (helpWizardSeen sh \<and> helpWizardStep sh \<noteq> WStart)"

text \<open>The detour is over once, in addition, no question is pending.\<close>

definition detour_over :: "Shell \<Rightarrow> bool" where
  "detour_over sh = (helpWizardSeen sh \<and> helpWizardStep sh = WNone)"

text \<open>
  A line that reaches \<^verbatim>\<open>case 'open'\<close> of the dispatcher: the tokenizer accepts it, no
  question of the detour is pending and the content tree is loaded.
\<close>

definition open_dispatched :: "FSNode option \<Rightarrow> Shell \<Rightarrow> string \<Rightarrow> bool" where
  "open_dispatched fs sh rawLine =
     (fs \<noteq> None \<and> helpWizardStep sh = WNone \<and>
      (case parseCommand rawLine of
         None \<Rightarrow> False
       | Some p \<Rightarrow> truthy (error p) = None \<and> commandName p = Str ''open''))"

text \<open>
  The detour is still open when it has not been marked as seen and no question is
  pending: the state at the start of a session and after a decline of the first question.
\<close>

definition detour_open :: "Shell \<Rightarrow> bool" where
  "detour_open sh = (\<not> helpWizardSeen sh \<and> helpWizardStep sh = WNone)"

text \<open>Shapes of effect lists: no error entry; one error entry and nothing else.\<close>

definition no_error :: "effect list \<Rightarrow> bool" where
  "no_error es = (\<forall>e \<in> set es. \<not> is_error_effect e)"

definition error_only :: "effect list \<Rightarrow> bool" where
  "error_only es = (\<exists>err. item_type err = Error \<and> es = [Dispatch (ADD_HISTORY err)])"

definition handled :: "effect list \<Rightarrow> bool" where
  "handled es = (no_error es \<or> error_only es)"

definition wizard_kept :: "effect list \<Rightarrow> bool" where
  "wizard_kept es = (\<forall>sh. helpWizardStep (foldl apply_effect sh es) = helpWizardStep sh \<and>
     helpWizardSeen (foldl apply_effect sh es) = helpWizardSeen sh)"

section \<open>Notions used in the statements about paths\<close>

text \<open>A segment of a path: not empty and without a slash.\<close>

definition good_segment :: "string \<Rightarrow> bool" where
  "good_segment s = (s \<noteq> [] \<and> CHR ''/'' \<notin> set s)"

text \<open>
  The walk of the tree in the words of the specification: each segment names a child of
  the directory reached so far. The children of a directory are the entries of its
  \<^verbatim>\<open>children\<close> and nothing else; a file has none.
\<close>

fun named_child :: "FSNode \<Rightarrow> string \<Rightarrow> FSNode option" where
  "named_child (DirectoryNode n ch m) s = map_of ch s"
| "named_child (FileNode n sl m c) s = None"

fun follow_children :: "FSNode \<Rightarrow> string list \<Rightarrow> FSNode option" where
  "follow_children n [] = Some n"
| "follow_children n (s # ss) =
     (case named_child n s of None \<Rightarrow> None | Some c \<Rightarrow> follow_children c ss)"

text \<open>
  An ordinary final segment: the stack is empty, or its last segment is not the name of
  a member that every object inherits from \<^verbatim>\<open>Object.prototype\<close>.
\<close>

definition ordinary_final :: "string list \<Rightarrow> bool" where
  "ordinary_final stack = (stack = [] \<or> last stack \<notin> set object_prototype_members)"

text \<open>The target made of \<open>n\<close> segments \<^verbatim>\<open>..\<close>, as in \<^verbatim>\<open>../../..\<close>.\<close>

definition dotdots :: "nat \<Rightarrow> string" where
  "dotdots n = join ''/'' (replicate n ''..'')"

section \<open>Notions used in the statements about the ranking\<close>

text \<open>
  The group, the distance and the score of a candidate for a normalized query, the
  ranking key of the specification with its lexicographic order, and the eligibility of a
  candidate.
\<close>

definition group_of :: "string \<Rightarrow> string \<Rightarrow> nat" where
  "group_of q c =
     (if startsWith (toLowerCase c) q then 0
      else if includes_str (toLowerCase c) q then 1 else 2)"

definition distance_of :: "string \<Rightarrow> string \<Rightarrow> nat" where
  "distance_of q c = levenshteinDistance q (toLowerCase c)"

definition rank_score :: "string \<Rightarrow> string \<Rightarrow> nat" where
  "rank_score q c = group_of q c * 100 + distance_of q c"

definition rank_key :: "string \<Rightarrow> string \<Rightarrow> nat \<times> nat" where
  "rank_key q c = (group_of q c, distance_of q c)"

definition key_less :: "nat \<times> nat \<Rightarrow> nat \<times> nat \<Rightarrow> bool" where
  "key_less k k' = (fst k < fst k' \<or> (fst k = fst k' \<and> snd k < snd k'))"

definition eligible_candidate :: "string \<Rightarrow> string \<Rightarrow> bool" where
  "eligible_candidate q c =
     (startsWith (toLowerCase c) q \<or> includes_str (toLowerCase c) q \<or>
      distance_of q c \<le> getMaxEditDistance (length q))"

text \<open>The ranking before its truncation to the limit.\<close>

definition full_ranking :: "host \<Rightarrow> string \<Rightarrow> string list \<Rightarrow> string list" where
  "full_ranking h q cs =
     map candidate
       (sort_by (compare_rows h)
          (filter (eligible (getMaxEditDistance (length q))) (map (make_row q) cs)))"

text \<open>A comparison of names that is a total preorder, and the order of the ranking for it.\<close>

definition consistent_compare :: "(string \<Rightarrow> string \<Rightarrow> int) \<Rightarrow> bool" where
  "consistent_compare lc =
     ((\<forall>a b. lc a b \<le> 0 \<or> lc b a \<le> 0) \<and>
      (\<forall>a b c. lc a b \<le> 0 \<and> lc b c \<le> 0 \<longrightarrow> lc a c \<le> 0))"

definition ranked_before :: "(string \<Rightarrow> string \<Rightarrow> int) \<Rightarrow> string \<Rightarrow> string \<Rightarrow> string \<Rightarrow> bool" where
  "ranked_before lc q c d =
     (key_less (rank_key q c) (rank_key q d) \<or> (rank_key q c = rank_key q d \<and> lc c d \<le> 0))"

section \<open>The working-directory invariant\<close>

lemma cwd_invariant_init: "cwd_invariant (getInitialState initialHistory initialCwd)"
  by (simp add: cwd_invariant_def getInitialState_def)

lemma cwd_invariant_step:
  assumes "cwd_invariant s" and "defined_transition a"
  shows "cwd_invariant (shellReducer s a)"
proof (cases a)
  case GO_BACK
  show ?thesis
  proof (cases "length (cwds s) \<le> 1")
    case True
    with assms GO_BACK show ?thesis by simp
  next
    case False
    then have "butlast (cwds s) \<noteq> []"
      by (cases "cwds s") (auto split: if_splits)
    with False GO_BACK show ?thesis
      by (simp add: cwd_invariant_def Let_def)
  qed
qed (use assms in \<open>auto simp: cwd_invariant_def\<close>)

text \<open>
  C10. Every session state reachable from an initial state by the transitions ADD_HISTORY,
  CLEAR_HISTORY, ADD_COMMAND, SET_CWD and GO_BACK has a non-empty working-directory stack
  whose last element is the current working directory, and each of these transitions
  keeps that invariant.
\<close>

theorem reachable_cwd_invariant:
  "(reachable s \<longrightarrow> cwds s \<noteq> [] \<and> currentCwd s = last (cwds s)) \<and>
   (cwd_invariant s \<and> defined_transition a \<longrightarrow> cwd_invariant (shellReducer s a))"
proof
  show "reachable s \<longrightarrow> cwds s \<noteq> [] \<and> currentCwd s = last (cwds s)"
  proof
    assume "reachable s"
    then have "cwd_invariant s"
      by (induction rule: reachable.induct) (simp_all add: cwd_invariant_init cwd_invariant_step)
    then show "cwds s \<noteq> [] \<and> currentCwd s = last (cwds s)"
      by (simp add: cwd_invariant_def)
  qed
next
  show "cwd_invariant s \<and> defined_transition a \<longrightarrow> cwd_invariant (shellReducer s a)"
    by (simp add: cwd_invariant_step)
qed

theorem reachable_cwd_invariant_witness:
  "reachable (shellReducer (getInitialState None None) (SET_CWD ''/books'')) \<and>
   cwds (shellReducer (getInitialState None None) (SET_CWD ''/books'')) \<noteq> [] \<and>
   currentCwd (shellReducer (getInitialState None None) (SET_CWD ''/books'')) =
     last (cwds (shellReducer (getInitialState None None) (SET_CWD ''/books''))) \<and>
   cwd_invariant (shellReducer (getInitialState None None) (SET_CWD ''/books'')) \<and>
   defined_transition GO_BACK \<and>
   cwd_invariant (shellReducer (shellReducer (getInitialState None None) (SET_CWD ''/books'')) GO_BACK)"
proof -
  let ?s = "shellReducer (getInitialState None None) (SET_CWD ''/books'')"
  have r: "reachable ?s"
    by (rule reachable.step [OF reachable.init]) simp
  have i: "cwd_invariant ?s"
    by (simp add: cwd_invariant_def getInitialState_def or_default_def)
  from reachable_cwd_invariant [of ?s GO_BACK] r i show ?thesis
    by simp
qed

section \<open>The tokenizer fails on an open quote only\<close>

lemma open_quote_Cons:
  "open_quote q (c # cs) =
     (if c = CHR 0x5C then open_quote q (tl cs) else open_quote (quote_after q c) cs)"
  by (cases cs) simp_all

lemma insideQuote_scan_char:
  "insideQuote (scan_char st c) =
     (if escaping st \<or> c = CHR 0x5C then insideQuote st else quote_after (insideQuote st) c)"
  by (simp add: scan_char_def quote_after_def split: option.splits)

lemma escaping_scan_char:
  "escaping (scan_char st c) = (\<not> escaping st \<and> c = CHR 0x5C)"
  by (simp add: scan_char_def split: option.splits)

lemma insideQuote_scan:
  "insideQuote (scan st s) = open_quote (insideQuote st) (if escaping st then tl s else s)"
proof (induction s arbitrary: st)
  case Nil
  show ?case by simp
next
  case (Cons c cs)
  show ?case
    by (simp add: Cons.IH insideQuote_scan_char escaping_scan_char open_quote_Cons)
qed

lemma trim_empty_iff: "trim s = [] \<longleftrightarrow> (\<forall>c \<in> set s. is_space c)"
proof -
  have "trim s = [] \<longleftrightarrow> (\<forall>c \<in> set (dropWhile is_space s). is_space c)"
    by (simp add: trim_def trimEnd_def trimStart_def)
  also have "\<dots> \<longleftrightarrow> (\<forall>c \<in> set s. is_space c)"
    by (induction s) auto
  finally show ?thesis .
qed

lemma is_space_plain: "is_space c \<Longrightarrow> c \<noteq> CHR 0x5C \<and> c \<noteq> CHR 0x22 \<and> c \<noteq> CHR 0x27"
  by (auto simp: is_space_def)

lemma open_quote_spaces: "\<forall>c \<in> set s. is_space c \<Longrightarrow> open_quote None s = None"
proof (induction s)
  case Nil
  show ?case by simp
next
  case (Cons c cs)
  then show ?case
    using is_space_plain [of c] by (simp add: open_quote_Cons quote_after_def)
qed

lemma open_quote_scan: "insideQuote (scan scan_init input) = open_quote None input"
  by (simp add: insideQuote_scan scan_init_def)

lemma open_quote_blank: "trim input = [] \<Longrightarrow> open_quote None input = None"
  by (simp add: trim_empty_iff open_quote_spaces)

lemma parse_error_kinds:
  "parseCommand input = Some p \<Longrightarrow> error p = None \<or> error p = Some ''Unclosed quote found.''"
  by (auto simp: parseCommand_def Let_def split: if_splits list.splits)

lemma parse_error_iff:
  "(\<exists>p. parseCommand input = Some p \<and> error p \<noteq> None) \<longleftrightarrow> quote_open_at_end input"
  using open_quote_blank [of input]
  by (auto simp: parseCommand_def Let_def quote_open_at_end_def open_quote_scan
      split: if_splits list.splits)

lemma parse_blank: "trim input = [] \<Longrightarrow> parseCommand input = None \<and> \<not> quote_open_at_end input"
  using open_quote_blank [of input] by (simp add: parseCommand_def quote_open_at_end_def)

text \<open>
  C8. For every input line the tokenizer fails with the unclosed-quote error only, and it
  does so exactly when a single or double quote is still open at the end of the input;
  an empty or white-space-only input gives no command, which is not a failure.
\<close>

theorem parseCommand_failure:
  "(\<forall>p. parseCommand input = Some p \<longrightarrow>
      error p = None \<or> error p = Some ''Unclosed quote found.'') \<and>
   ((\<exists>p. parseCommand input = Some p \<and> error p \<noteq> None) \<longleftrightarrow> quote_open_at_end input) \<and>
   (trim input = [] \<longrightarrow> parseCommand input = None \<and> \<not> quote_open_at_end input)"
  using parse_error_kinds [of input] parse_error_iff [of input] parse_blank [of input]
  by blast

theorem parseCommand_failure_witness:
  "parseCommand ''cat 'abc'' = Some \<lparr>raw = ''cat 'abc'', commandName = Str [], args = [],
      error = Some ''Unclosed quote found.''\<rparr> \<and>
   quote_open_at_end ''cat 'abc'' \<and>
   trim '' '' = [] \<and> parseCommand '' '' = None \<and> \<not> quote_open_at_end '' ''"
proof -
  have p: "parseCommand ''cat 'abc'' = Some \<lparr>raw = ''cat 'abc'', commandName = Str [], args = [],
      error = Some ''Unclosed quote found.''\<rparr>"
    by (simp add: parseCommand_def trim_def trimEnd_def trimStart_def is_space_def scan_init_def
        scan_char_def)
  have t: "trim '' '' = []"
    by (simp add: trim_def trimEnd_def trimStart_def is_space_def)
  from parseCommand_failure [of "''cat 'abc''"] parseCommand_failure [of "'' ''"] p t
  show ?thesis by auto
qed

section \<open>The shape of an execution\<close>

lemma parseCommand_Some_trim: "parseCommand rawLine = Some p \<Longrightarrow> trim rawLine \<noteq> []"
  by (auto simp: parseCommand_def split: if_splits)

lemma parse_truthy:
  "parseCommand rawLine = Some p \<Longrightarrow> truthy (error p) = None \<longleftrightarrow> error p = None"
  using parse_error_kinds [of rawLine p] by (auto simp: truthy_def)

lemma execute_dispatch:
  assumes "dispatched sh rawLine p"
  shows "execute h (Some root) sh rawLine =
     [Dispatch (ADD_HISTORY (echo_of sh rawLine)), Dispatch (ADD_COMMAND rawLine),
      SetHistoryPointer None] @ dispatch_command h root sh rawLine p"
  using assms parseCommand_Some_trim [of rawLine p]
  by (simp add: execute_def after_echo_def truthy_def echo_of_def dispatched_def parsed_ok_def)

lemma submit_prefix:
  assumes "execute h fs sh rawLine =
     [Dispatch (ADD_HISTORY e), Dispatch (ADD_COMMAND rawLine), SetHistoryPointer None] @ es"
  shows "submit h fs sh rawLine =
     foldl apply_effect
       (sh\<lparr>state := (state sh)\<lparr>history := history (state sh) @ [e],
                                 commandHistory := commandHistory (state sh) @ [rawLine]\<rparr>,
            historyPointer := None\<rparr>) es"
  by (simp add: submit_def assms)

lemma handled_error [simp]:
  "handled [addError m f]"
  "handled [Dispatch (ADD_HISTORY \<lparr>item_type = Error, content = c, path = p\<rparr>)]"
  by (auto simp: handled_def error_only_def addError_def)

lemma no_error_simps [simp]:
  "no_error []"
  "no_error (e # es) = (\<not> is_error_effect e \<and> no_error es)"
  by (auto simp: no_error_def)

lemma not_error_simps [simp]:
  "\<not> is_error_effect (addOutput c)"
  "\<not> is_error_effect (pushUrl u)"
  by (simp_all add: addOutput_def pushUrl_def)

lemma handled_no_error: "no_error es \<Longrightarrow> handled es"
  by (simp add: handled_def)

lemma runCd_shape: "handled (runCd h root st as)"
  by (simp add: runCd_def Let_def handled_no_error split: option.splits)

lemma runLs_shape: "handled (runLs h root st)"
  by (simp add: runLs_def handled_no_error split: option.splits)

lemma runBack_shape: "handled (runBack st)"
  by (simp add: runBack_def Let_def handled_no_error)

lemma runTree_shape: "handled (runTree h root st as)"
  by (simp add: runTree_def Let_def handled_no_error split: option.splits prod.splits)

lemma runOpen_shape: "handled (runOpen h root sh as)"
  by (simp add: runOpen_def Let_def handled_no_error split: option.splits)

lemma runCat_shape: "handled (runCat h root st as)"
  by (simp add: runCat_def Let_def handled_no_error split: option.splits)

lemma runSearch_shape: "handled (runSearch root as)"
  by (simp add: runSearch_def Let_def handled_no_error)

lemma runDefault_shape: "handled (runDefault h rawLine cn)"
  by (simp add: runDefault_def Let_def handled_no_error split: name_value.splits option.splits)

lemma runHelp_shape: "handled (runHelp sh)"
  by (simp add: runHelp_def handled_no_error)

lemma help_wizard_shape: "handled (help_wizard w rawLine)"
  by (simp add: help_wizard_def Let_def handled_no_error split: wizard_step.splits)

text \<open>
  The dispatcher appends at most one error entry, and then nothing else; \<^verbatim>\<open>open\<close>
  alone writes the flag \<^verbatim>\<open>hasUsedOpen\<close> first.
\<close>

lemma dispatch_shape:
  "commandName p \<noteq> Str ''open'' \<Longrightarrow> handled (dispatch_command h root sh rawLine p)"
  by (simp add: dispatch_command_def Let_def runHome_def runPwd_def runSummary_def
      runCd_shape runLs_shape runBack_shape runTree_shape runCat_shape
      runSearch_shape runDefault_shape runHelp_shape handled_no_error)

lemma dispatch_open_shape:
  "commandName p = Str ''open'' \<Longrightarrow>
     \<exists>es. dispatch_command h root sh rawLine p = SetHasUsedOpen True # es \<and> handled es"
  by (simp add: dispatch_command_def Let_def runOpen_shape)

lemma after_echo_shape:
  "\<not> open_dispatched fs sh rawLine \<Longrightarrow> handled (after_echo h fs sh rawLine)"
  by (auto simp: after_echo_def open_dispatched_def help_wizard_shape dispatch_shape
      handled_no_error split: option.splits)

lemma after_echo_open_shape:
  "open_dispatched fs sh rawLine \<Longrightarrow>
     \<exists>es. after_echo h fs sh rawLine = SetHasUsedOpen True # es \<and> handled es"
  using dispatch_open_shape
  by (auto simp: after_echo_def open_dispatched_def split: option.splits)

lemma wizard_kept_simps [simp]:
  "wizard_kept []"
  "wizard_kept [addError m f]"
  "wizard_kept [addOutput c]"
  "wizard_kept [Dispatch a]"
  "wizard_kept [Dispatch a, pushUrl u]"
  by (simp_all add: wizard_kept_def addError_def addOutput_def pushUrl_def)

lemma wizard_kept_Cons: "wizard_kept es \<Longrightarrow> wizard_kept (SetHasUsedOpen b # es)"
  by (simp add: wizard_kept_def)

lemma runCd_wizard: "wizard_kept (runCd h root st as)"
  by (simp add: runCd_def Let_def split: option.splits)

lemma runLs_wizard: "wizard_kept (runLs h root st)"
  by (simp add: runLs_def split: option.splits)

lemma runBack_wizard: "wizard_kept (runBack st)"
  by (simp add: runBack_def Let_def)

lemma runTree_wizard: "wizard_kept (runTree h root st as)"
  by (simp add: runTree_def Let_def split: option.splits prod.splits)

lemma runOpen_wizard: "wizard_kept (runOpen h root sh as)"
  by (simp add: runOpen_def Let_def split: option.splits)
    (simp add: wizard_kept_def addOutput_def pushUrl_def)

lemma runCat_wizard: "wizard_kept (runCat h root st as)"
  by (simp add: runCat_def Let_def split: option.splits)

lemma runSearch_wizard: "wizard_kept (runSearch root as)"
  by (simp add: runSearch_def Let_def)

lemma runDefault_wizard: "wizard_kept (runDefault h rawLine cn)"
  by (simp add: runDefault_def Let_def split: name_value.splits option.splits)
    (simp add: wizard_kept_def)

lemma runHelp_wizard: "helpWizardSeen sh \<Longrightarrow> wizard_kept (runHelp sh)"
  by (simp add: runHelp_def)

lemma dispatch_wizard:
  "helpWizardSeen sh \<Longrightarrow> wizard_kept (dispatch_command h root sh rawLine p)"
  by (simp add: dispatch_command_def Let_def runHome_def runPwd_def runSummary_def
      runCd_wizard runLs_wizard runBack_wizard runTree_wizard runOpen_wizard runCat_wizard
      runSearch_wizard runDefault_wizard runHelp_wizard wizard_kept_Cons)

lemma dispatch_other_wizard:
  "commandName p \<noteq> Str ''help'' \<Longrightarrow> wizard_kept (dispatch_command h root sh rawLine p)"
  by (simp add: dispatch_command_def Let_def runHome_def runPwd_def runSummary_def
      runCd_wizard runLs_wizard runBack_wizard runTree_wizard runOpen_wizard runCat_wizard
      runSearch_wizard runDefault_wizard wizard_kept_Cons)

lemma wizard_kept_done:
  "wizard_kept es \<Longrightarrow> detour_done sh \<Longrightarrow> detour_done (foldl apply_effect sh es)"
  by (simp add: wizard_kept_def detour_done_def)

lemma help_wizard_done:
  "detour_done sh \<Longrightarrow>
     detour_done (foldl apply_effect sh (help_wizard (helpWizardStep sh) rawLine))"
  by (cases "helpWizardStep sh")
    (simp_all add: help_wizard_def Let_def detour_done_def addOutput_def)

lemma after_echo_done:
  assumes "detour_done sh1" and "helpWizardStep sh1 = helpWizardStep sh"
    and "helpWizardSeen sh"
  shows "detour_done (foldl apply_effect sh1 (after_echo h fs sh rawLine))"
proof -
  have "wizard_kept (after_echo h fs sh rawLine) \<or>
      after_echo h fs sh rawLine = help_wizard (helpWizardStep sh) rawLine"
    using dispatch_wizard [OF assms(3)]
    by (simp add: after_echo_def split: option.splits)
  then show ?thesis
  proof
    assume "wizard_kept (after_echo h fs sh rawLine)"
    then show ?thesis using assms(1) by (rule wizard_kept_done)
  next
    assume "after_echo h fs sh rawLine = help_wizard (helpWizardStep sh) rawLine"
    then show ?thesis
      using help_wizard_done [OF assms(1), of rawLine] assms(2) by simp
  qed
qed

lemma submit_done:
  assumes "detour_done sh"
  shows "detour_done (submit h fs sh rawLine)"
proof (cases "trim rawLine = []")
  case True
  with assms show ?thesis by (simp add: submit_def execute_def)
next
  case False
  let ?sh1 = "foldl apply_effect sh
     [Dispatch (ADD_HISTORY (echo_of sh rawLine)), Dispatch (ADD_COMMAND rawLine),
      SetHistoryPointer None]"
  have "detour_done ?sh1" and "helpWizardStep ?sh1 = helpWizardStep sh" and "helpWizardSeen sh"
    using assms by (simp_all add: detour_done_def)
  then have "detour_done (foldl apply_effect ?sh1 (after_echo h fs sh rawLine))"
    by (rule after_echo_done)
  with False show ?thesis
    by (simp add: submit_def execute_def echo_of_def)
qed

lemma run_done: "detour_done sh \<Longrightarrow> detour_done (run h fs sh ls)"
  by (induction ls arbitrary: sh) (simp_all add: submit_done)

lemma after_echo_kept:
  assumes "detour_over sh"
  shows "wizard_kept (after_echo h fs sh rawLine)"
  using assms dispatch_wizard [of sh h _ rawLine]
  by (simp add: after_echo_def detour_over_def split: option.splits)

lemma submit_over:
  assumes "detour_over sh"
  shows "detour_over (submit h fs sh rawLine)"
proof (cases "trim rawLine = []")
  case True
  with assms show ?thesis by (simp add: submit_def execute_def)
next
  case False
  let ?sh1 = "foldl apply_effect sh
     [Dispatch (ADD_HISTORY (echo_of sh rawLine)), Dispatch (ADD_COMMAND rawLine),
      SetHistoryPointer None]"
  have "detour_over ?sh1"
    using assms by (simp add: detour_over_def)
  with after_echo_kept [OF assms, of h fs rawLine]
  have "detour_over (foldl apply_effect ?sh1 (after_echo h fs sh rawLine))"
    by (simp add: wizard_kept_def detour_over_def)
  with False show ?thesis
    by (simp add: submit_def execute_def echo_of_def)
qed

lemma run_over: "detour_over sh \<Longrightarrow> detour_over (run h fs sh ls)"
  by (induction ls arbitrary: sh) (simp_all add: submit_over)

text \<open>
  While the detour is open, a line that is not an accepted \<^verbatim>\<open>help\<close> leaves it open.
\<close>

lemma after_echo_other_kept:
  assumes "helpWizardStep sh = WNone"
    and "\<forall>p. parsed_ok rawLine p \<longrightarrow> commandName p \<noteq> Str ''help''"
  shows "wizard_kept (after_echo h fs sh rawLine)"
proof (cases "parseCommand rawLine")
  case None
  then show ?thesis by (simp add: after_echo_def)
next
  case (Some p)
  show ?thesis
  proof (cases "error p")
    case None
    with Some assms(2) have "commandName p \<noteq> Str ''help''"
      by (simp add: parsed_ok_def)
    then have "wizard_kept (dispatch_command h root sh rawLine p)" for root
      by (rule dispatch_other_wizard)
    with Some None assms(1) show ?thesis
      by (simp add: after_echo_def truthy_def split: option.splits)
  next
    case (Some e)
    with parse_truthy [OF \<open>parseCommand rawLine = Some p\<close>]
    obtain e' where "truthy (error p) = Some e'"
      by (cases "truthy (error p)") simp_all
    with \<open>parseCommand rawLine = Some p\<close> show ?thesis
      by (simp add: after_echo_def)
  qed
qed

lemma submit_open:
  assumes "detour_open sh"
    and "\<forall>p. parsed_ok rawLine p \<longrightarrow> commandName p \<noteq> Str ''help''"
  shows "detour_open (submit h fs sh rawLine)"
proof (cases "trim rawLine = []")
  case True
  with assms show ?thesis by (simp add: submit_def execute_def)
next
  case False
  let ?sh1 = "foldl apply_effect sh
     [Dispatch (ADD_HISTORY (echo_of sh rawLine)), Dispatch (ADD_COMMAND rawLine),
      SetHistoryPointer None]"
  have "detour_open ?sh1"
    using assms by (simp add: detour_open_def)
  moreover have "wizard_kept (after_echo h fs sh rawLine)"
    using assms by (intro after_echo_other_kept) (simp_all add: detour_open_def)
  ultimately have "detour_open (foldl apply_effect ?sh1 (after_echo h fs sh rawLine))"
    by (simp add: wizard_kept_def detour_open_def)
  with False show ?thesis
    by (simp add: submit_def execute_def echo_of_def)
qed

lemma run_open:
  "detour_open sh \<Longrightarrow>
   \<forall>l \<in> set ls. \<forall>p. parsed_ok l p \<longrightarrow> commandName p \<noteq> Str ''help'' \<Longrightarrow>
   detour_open (run h fs sh ls)"
  by (induction ls arbitrary: sh) (simp_all add: submit_open)

text \<open>The parses of the lines of the closed examples.\<close>

lemma parse_example:
  "parseCommand ''back'' =
     Some \<lparr>raw = ''back'', commandName = Str ''back'', args = [], error = None\<rparr>"
  "parseCommand ''clear'' =
     Some \<lparr>raw = ''clear'', commandName = Str ''clear'', args = [], error = None\<rparr>"
  "parseCommand ''help'' =
     Some \<lparr>raw = ''help'', commandName = Str ''help'', args = [], error = None\<rparr>"
  "parseCommand ''yes'' =
     Some \<lparr>raw = ''yes'', commandName = Str ''yes'', args = [], error = None\<rparr>"
  "parseCommand ''no'' =
     Some \<lparr>raw = ''no'', commandName = Str ''no'', args = [], error = None\<rparr>"
  "parseCommand ''ls'' =
     Some \<lparr>raw = ''ls'', commandName = Str ''ls'', args = [], error = None\<rparr>"
  "parseCommand ''lls'' =
     Some \<lparr>raw = ''lls'', commandName = Str ''lls'', args = [], error = None\<rparr>"
  "parseCommand ''cat'' =
     Some \<lparr>raw = ''cat'', commandName = Str ''cat'', args = [], error = None\<rparr>"
  "parseCommand ''cd nope'' =
     Some \<lparr>raw = ''cd nope'', commandName = Str ''cd'', args = [''nope''], error = None\<rparr>"
  "parseCommand ''cd about'' =
     Some \<lparr>raw = ''cd about'', commandName = Str ''cd'', args = [''about''], error = None\<rparr>"
  "parseCommand ''cat books'' =
     Some \<lparr>raw = ''cat books'', commandName = Str ''cat'', args = [''books''], error = None\<rparr>"
  by code_simp+

section \<open>\<^verbatim>\<open>back\<close> at the floor of the stack\<close>

text \<open>
  C1, as the specification states it, fails: in the initial state of the session, where
  the working-directory stack holds its floor entry only, the entry that \<^verbatim>\<open>back\<close>
  appends to the display log is tagged as an error.
\<close>

theorem back_at_floor_counterexample:
  "item_type (last (history (state
      (submit example_host (Some example_root) (initialShell None None) ''back'')))) = Error"
  by code_simp

text \<open>
  C1, amended. Executing \<^verbatim>\<open>back\<close> when the working-directory stack holds its floor entry
  only changes neither the stack nor the current working directory and does not throw;
  after the echo of the line it appends one entry to the display log, tagged as an error,
  with the message "Already at root of session." and no suggested fix.
\<close>

theorem back_at_floor:
  assumes "length (cwds (state sh)) \<le> 1" and "dispatched sh rawLine p"
    and "commandName p = Str ''back''"
  shows "cwds (state (submit h (Some root) sh rawLine)) = cwds (state sh) \<and>
         currentCwd (state (submit h (Some root) sh rawLine)) = currentCwd (state sh) \<and>
         history (state (submit h (Some root) sh rawLine)) =
           history (state sh) @
             [\<lparr>item_type = Command, content = Text rawLine, path = Some (currentCwd (state sh))\<rparr>,
              \<lparr>item_type = Error, content = ErrorContent ''Already at root of session.'' [],
                path = None\<rparr>] \<and>
         ThrowTypeError \<notin> set (execute h (Some root) sh rawLine)"
proof -
  have d: "dispatch_command h root sh rawLine p = [addError ''Already at root of session.'' []]"
    using assms(1,3) by (simp add: dispatch_command_def runBack_def)
  have e: "execute h (Some root) sh rawLine =
     [Dispatch (ADD_HISTORY (echo_of sh rawLine)), Dispatch (ADD_COMMAND rawLine),
      SetHistoryPointer None] @ [addError ''Already at root of session.'' []]"
    using execute_dispatch [OF assms(2)] d by simp
  show ?thesis
    unfolding submit_prefix [OF e]
    by (simp add: e addError_def buildErrorContent_def slice0_def echo_of_def)
qed

theorem back_at_floor_witness:
  "length (cwds (state (initialShell None None))) \<le> 1 \<and>
   dispatched (initialShell None None) ''back''
     \<lparr>raw = ''back'', commandName = Str ''back'', args = [], error = None\<rparr> \<and>
   cwds (state (submit example_host (Some example_root) (initialShell None None) ''back'')) =
     [''/''] \<and>
   currentCwd (state (submit example_host (Some example_root) (initialShell None None) ''back'')) =
     ''/'' \<and>
   history (state (submit example_host (Some example_root) (initialShell None None) ''back'')) =
     [defaultBanner,
      \<lparr>item_type = Command, content = Text ''back'', path = Some ''/''\<rparr>,
      \<lparr>item_type = Error, content = ErrorContent ''Already at root of session.'' [],
        path = None\<rparr>]"
proof -
  let ?p = "\<lparr>raw = ''back'', commandName = Str ''back'', args = [], error = None\<rparr>"
  have l: "length (cwds (state (initialShell None None))) \<le> 1"
    by (simp add: initialShell_def getInitialState_def)
  have d: "dispatched (initialShell None None) ''back'' ?p"
    by (simp add: dispatched_def parsed_ok_def parse_example initialShell_def)
  have n: "commandName ?p = Str ''back''"
    by simp
  from back_at_floor [OF l d n, of example_host example_root] l d show ?thesis
    by (simp add: initialShell_def getInitialState_def or_default_def)
qed

section \<open>\<^verbatim>\<open>clear\<close> keeps the banners\<close>

text \<open>
  C7, as the specification states it, fails: the execution of \<^verbatim>\<open>clear\<close> records the line
  in the command-string history, as the execution of every line does.
\<close>

theorem clear_counterexample:
  "commandHistory (state (initialShell None None)) = [] \<and>
   commandHistory (state
      (submit example_host (Some example_root) (initialShell None None) ''clear'')) = [''clear'']"
  by code_simp

text \<open>
  C7, amended. For every session state, executing \<^verbatim>\<open>clear\<close> (no onboarding question
  pending, content tree loaded) resets the display log to exactly the banner-tagged
  entries it contained, or to the single default banner if it contained none, and leaves
  the working-directory stack and the current working directory unchanged; the line is
  appended to the command-string history, which the transition CLEAR\_HISTORY itself
  leaves unchanged.
\<close>

theorem clear_resets_log:
  assumes "dispatched sh rawLine p" and "commandName p = Str ''clear''"
  shows "history (state (submit h (Some root) sh rawLine)) =
           (if filter (\<lambda>item. item_type item = Banner) (history (state sh)) = []
            then [defaultBanner]
            else filter (\<lambda>item. item_type item = Banner) (history (state sh))) \<and>
         cwds (state (submit h (Some root) sh rawLine)) = cwds (state sh) \<and>
         currentCwd (state (submit h (Some root) sh rawLine)) = currentCwd (state sh) \<and>
         commandHistory (state (submit h (Some root) sh rawLine)) =
           commandHistory (state sh) @ [rawLine] \<and>
         commandHistory (shellReducer (state sh) CLEAR_HISTORY) = commandHistory (state sh)"
proof -
  have d: "dispatch_command h root sh rawLine p = [Dispatch CLEAR_HISTORY]"
    using assms(2) by (simp add: dispatch_command_def)
  have e: "execute h (Some root) sh rawLine =
     [Dispatch (ADD_HISTORY (echo_of sh rawLine)), Dispatch (ADD_COMMAND rawLine),
      SetHistoryPointer None] @ [Dispatch CLEAR_HISTORY]"
    using execute_dispatch [OF assms(1)] d by simp
  show ?thesis
    unfolding submit_prefix [OF e]
    by (simp add: echo_of_def Let_def)
qed

theorem clear_resets_log_witness:
  "dispatched (initialShell None None) ''clear''
     \<lparr>raw = ''clear'', commandName = Str ''clear'', args = [], error = None\<rparr> \<and>
   history (state (submit example_host (Some example_root) (initialShell None None) ''clear'')) =
     [defaultBanner] \<and>
   cwds (state (submit example_host (Some example_root) (initialShell None None) ''clear'')) =
     [''/''] \<and>
   commandHistory (state
     (submit example_host (Some example_root) (initialShell None None) ''clear'')) = [''clear'']"
proof -
  let ?p = "\<lparr>raw = ''clear'', commandName = Str ''clear'', args = [], error = None\<rparr>"
  have d: "dispatched (initialShell None None) ''clear'' ?p"
    by (simp add: dispatched_def parsed_ok_def parse_example initialShell_def)
  have n: "commandName ?p = Str ''clear''"
    by simp
  from clear_resets_log [OF d n, of example_host example_root] d show ?thesis
    by (simp add: initialShell_def getInitialState_def or_default_def defaultBanner_def)
qed

section \<open>The onboarding detour of \<^verbatim>\<open>help\<close>\<close>

text \<open>
  C4, as the specification states it, fails: after the first question has been declined
  the next \<^verbatim>\<open>help\<close> asks it again.
\<close>

theorem help_detour_counterexample:
  "helpWizardStep (run example_host (Some example_root) (initialShell None None)
      [''help'', ''no'']) = WNone \<and>
   helpWizardStep (run example_host (Some example_root) (initialShell None None)
      [''help'', ''no'', ''help'']) = WStart"
  by code_simp

text \<open>
  C4, amended. The onboarding detour of \<^verbatim>\<open>help\<close> is gone through at most once per
  session, and a decline of its first question does not count as going through it.
  Once the first question has been answered yes, whatever lines follow, the first
  question is never asked again. Once the detour has been completed, that is, once the
  second question has been answered too, whatever lines follow, no question is pending,
  and every later \<^verbatim>\<open>help\<close> is, with the content tree loaded, dispatched normally and
  prints the command overview. An accepted yes to the first question marks the detour as
  seen and asks the second question, and either answer to the second question completes
  the detour. While a question is pending, every accepted line that is none of y, yes,
  n and no, \<^verbatim>\<open>help\<close> included, is answered by the reprompt and leaves the pending
  question and the mark as they are. A decline of the first question closes the question
  and leaves the mark as it is; as long as the detour is not marked as seen and no
  question is pending, lines other than \<^verbatim>\<open>help\<close> leave it so, and the next \<^verbatim>\<open>help\<close>,
  with the content tree loaded, asks the first question again.
\<close>

theorem help_detour_once:
  "(detour_done sh \<longrightarrow> detour_done (run h fs sh ls)) \<and>
   (detour_over sh \<longrightarrow> detour_over (run h fs sh ls)) \<and>
   (detour_over sh \<and> parsed_ok rawLine p \<and> commandName p = Str ''help'' \<longrightarrow>
      execute h (Some root) (run h fs sh ls) rawLine =
        [Dispatch (ADD_HISTORY (echo_of (run h fs sh ls) rawLine)),
         Dispatch (ADD_COMMAND rawLine), SetHistoryPointer None, addOutput (Canned HelpGrid)]) \<and>
   (helpWizardStep sh = WStart \<and> parsed_ok rawLine p \<and>
    (toLowerCase (trim rawLine) = ''y'' \<or> toLowerCase (trim rawLine) = ''yes'') \<longrightarrow>
      detour_done (submit h fs sh rawLine) \<and>
      helpWizardStep (submit h fs sh rawLine) = WExperience) \<and>
   (detour_done sh \<and> helpWizardStep sh = WExperience \<and> parsed_ok rawLine p \<and>
    toLowerCase (trim rawLine) \<in> {''y'', ''yes'', ''n'', ''no''} \<longrightarrow>
      detour_over (submit h fs sh rawLine)) \<and>
   (helpWizardStep sh \<noteq> WNone \<and> parsed_ok rawLine p \<and>
    toLowerCase (trim rawLine) \<notin> {''y'', ''yes'', ''n'', ''no''} \<longrightarrow>
      execute h fs sh rawLine =
        [Dispatch (ADD_HISTORY (echo_of sh rawLine)), Dispatch (ADD_COMMAND rawLine),
         SetHistoryPointer None, addOutput (Canned PleaseAnswer)] \<and>
      helpWizardStep (submit h fs sh rawLine) = helpWizardStep sh \<and>
      helpWizardSeen (submit h fs sh rawLine) = helpWizardSeen sh) \<and>
   (helpWizardStep sh = WStart \<and> parsed_ok rawLine p \<and>
    (toLowerCase (trim rawLine) = ''n'' \<or> toLowerCase (trim rawLine) = ''no'') \<longrightarrow>
      helpWizardStep (submit h fs sh rawLine) = WNone \<and>
      helpWizardSeen (submit h fs sh rawLine) = helpWizardSeen sh) \<and>
   (detour_open sh \<and>
    (\<forall>l \<in> set ls. \<forall>q. parsed_ok l q \<longrightarrow> commandName q \<noteq> Str ''help'') \<longrightarrow>
      detour_open (run h fs sh ls)) \<and>
   (detour_open sh \<and> parsed_ok rawLine p \<and> commandName p = Str ''help'' \<longrightarrow>
      execute h (Some root) sh rawLine =
        [Dispatch (ADD_HISTORY (echo_of sh rawLine)), Dispatch (ADD_COMMAND rawLine),
         SetHistoryPointer None, SetHelpWizardStep WStart, addOutput (Canned Greeting)] \<and>
      helpWizardStep (submit h (Some root) sh rawLine) = WStart \<and>
      \<not> helpWizardSeen (submit h (Some root) sh rawLine))"
proof -
  have c1: "detour_done sh \<longrightarrow> detour_done (run h fs sh ls)"
    by (simp add: run_done)
  have c2: "detour_over sh \<longrightarrow> detour_over (run h fs sh ls)"
    by (simp add: run_over)
  have c3: "execute h (Some root) (run h fs sh ls) rawLine =
        [Dispatch (ADD_HISTORY (echo_of (run h fs sh ls) rawLine)),
         Dispatch (ADD_COMMAND rawLine), SetHistoryPointer None, addOutput (Canned HelpGrid)]"
    if a: "detour_over sh \<and> parsed_ok rawLine p \<and> commandName p = Str ''help''"
  proof -
    let ?sh = "run h fs sh ls"
    from a have over: "detour_over ?sh"
      by (simp add: run_over)
    with a have d: "dispatched ?sh rawLine p"
      by (simp add: dispatched_def detour_over_def)
    from a over have "dispatch_command h root ?sh rawLine p = [addOutput (Canned HelpGrid)]"
      by (simp add: dispatch_command_def runHelp_def detour_over_def)
    with execute_dispatch [OF d, of h root] show ?thesis
      by simp
  qed
  have c4: "detour_done (submit h fs sh rawLine) \<and>
      helpWizardStep (submit h fs sh rawLine) = WExperience"
    if a: "helpWizardStep sh = WStart \<and> parsed_ok rawLine p \<and>
      (toLowerCase (trim rawLine) = ''y'' \<or> toLowerCase (trim rawLine) = ''yes'')"
  proof -
    from a have t: "trim rawLine \<noteq> []"
      using parseCommand_Some_trim [of rawLine p] by (simp add: parsed_ok_def)
    from a have "after_echo h fs sh rawLine =
        [SetHelpWizardSeen True, addOutput (Canned ExperienceQuestion),
         SetHelpWizardStep WExperience]"
      by (auto simp: after_echo_def parsed_ok_def truthy_def help_wizard_def Let_def)
    with t show ?thesis
      by (simp add: submit_def execute_def detour_done_def addOutput_def)
  qed
  have c5: "detour_over (submit h fs sh rawLine)"
    if a: "detour_done sh \<and> helpWizardStep sh = WExperience \<and> parsed_ok rawLine p \<and>
      toLowerCase (trim rawLine) \<in> {''y'', ''yes'', ''n'', ''no''}"
  proof -
    from a have t: "trim rawLine \<noteq> []"
      using parseCommand_Some_trim [of rawLine p] by (simp add: parsed_ok_def)
    from a have "after_echo h fs sh rawLine =
          [addOutput (Canned Splendid), SetHelpWizardStep WNone] \<or>
        after_echo h fs sh rawLine =
          [addOutput (Canned StartSimple), SetHelpWizardStep WNone]"
      by (auto simp: after_echo_def parsed_ok_def truthy_def help_wizard_def Let_def)
    with t a show ?thesis
      by (auto simp: submit_def execute_def addOutput_def detour_over_def detour_done_def)
  qed
  have c6: "execute h fs sh rawLine =
        [Dispatch (ADD_HISTORY (echo_of sh rawLine)), Dispatch (ADD_COMMAND rawLine),
         SetHistoryPointer None, addOutput (Canned PleaseAnswer)] \<and>
      helpWizardStep (submit h fs sh rawLine) = helpWizardStep sh \<and>
      helpWizardSeen (submit h fs sh rawLine) = helpWizardSeen sh"
    if a: "helpWizardStep sh \<noteq> WNone \<and> parsed_ok rawLine p \<and>
      toLowerCase (trim rawLine) \<notin> {''y'', ''yes'', ''n'', ''no''}"
  proof -
    from a have t: "trim rawLine \<noteq> []"
      using parseCommand_Some_trim [of rawLine p] by (simp add: parsed_ok_def)
    from a have "after_echo h fs sh rawLine = [addOutput (Canned PleaseAnswer)]"
      by (simp add: after_echo_def parsed_ok_def truthy_def help_wizard_def Let_def)
    with t show ?thesis
      by (simp add: submit_def execute_def echo_of_def addOutput_def)
  qed
  have c7: "helpWizardStep (submit h fs sh rawLine) = WNone \<and>
      helpWizardSeen (submit h fs sh rawLine) = helpWizardSeen sh"
    if a: "helpWizardStep sh = WStart \<and> parsed_ok rawLine p \<and>
      (toLowerCase (trim rawLine) = ''n'' \<or> toLowerCase (trim rawLine) = ''no'')"
  proof -
    from a have t: "trim rawLine \<noteq> []"
      using parseCommand_Some_trim [of rawLine p] by (simp add: parsed_ok_def)
    from a have "after_echo h fs sh rawLine =
        [addOutput (Canned TakeYourTime), SetHelpWizardStep WNone]"
      by (auto simp: after_echo_def parsed_ok_def truthy_def help_wizard_def Let_def)
    with t show ?thesis
      by (simp add: submit_def execute_def addOutput_def)
  qed
  have c8: "detour_open (run h fs sh ls)"
    if a: "detour_open sh \<and>
      (\<forall>l \<in> set ls. \<forall>q. parsed_ok l q \<longrightarrow> commandName q \<noteq> Str ''help'')"
    using a by (simp add: run_open)
  have c9: "execute h (Some root) sh rawLine =
        [Dispatch (ADD_HISTORY (echo_of sh rawLine)), Dispatch (ADD_COMMAND rawLine),
         SetHistoryPointer None, SetHelpWizardStep WStart, addOutput (Canned Greeting)] \<and>
      helpWizardStep (submit h (Some root) sh rawLine) = WStart \<and>
      \<not> helpWizardSeen (submit h (Some root) sh rawLine)"
    if a: "detour_open sh \<and> parsed_ok rawLine p \<and> commandName p = Str ''help''"
  proof -
    from a have d: "dispatched sh rawLine p"
      by (simp add: dispatched_def detour_open_def)
    from a have "dispatch_command h root sh rawLine p =
        [SetHelpWizardStep WStart, addOutput (Canned Greeting)]"
      by (simp add: dispatch_command_def runHelp_def detour_open_def)
    with execute_dispatch [OF d, of h root] a show ?thesis
      by (simp add: submit_def addOutput_def detour_open_def)
  qed
  from c1 c2 c3 c4 c5 c6 c7 c8 c9 show ?thesis
    by blast
qed

text \<open>
  The witness declines the first question, changes the directory and asks for
  \<^verbatim>\<open>help\<close> again; it then goes through the detour (\<^verbatim>\<open>yes\<close>, a \<^verbatim>\<open>help\<close> that is
  reprompted, \<^verbatim>\<open>no\<close>), changes the directory and asks for \<^verbatim>\<open>help\<close> once more.
\<close>

theorem help_detour_once_witness:
  "detour_open (initialShell None None) \<and>
   parsed_ok ''help'' \<lparr>raw = ''help'', commandName = Str ''help'', args = [], error = None\<rparr> \<and>
   helpWizardStep (run example_host (Some example_root) (initialShell None None)
     [''help'']) = WStart \<and>
   parsed_ok ''no'' \<lparr>raw = ''no'', commandName = Str ''no'', args = [], error = None\<rparr> \<and>
   detour_open (run example_host (Some example_root) (initialShell None None)
     [''help'', ''no'']) \<and>
   detour_open (run example_host (Some example_root) (initialShell None None)
     [''help'', ''no'', ''cd books'']) \<and>
   helpWizardStep (run example_host (Some example_root) (initialShell None None)
     [''help'', ''no'', ''cd books'', ''help'']) = WStart \<and>
   parsed_ok ''yes'' \<lparr>raw = ''yes'', commandName = Str ''yes'', args = [], error = None\<rparr> \<and>
   detour_done (run example_host (Some example_root) (initialShell None None)
     [''help'', ''no'', ''cd books'', ''help'', ''yes'']) \<and>
   helpWizardStep (run example_host (Some example_root) (initialShell None None)
     [''help'', ''no'', ''cd books'', ''help'', ''yes'']) = WExperience \<and>
   helpWizardStep (run example_host (Some example_root) (initialShell None None)
     [''help'', ''no'', ''cd books'', ''help'', ''yes'', ''help'']) = WExperience \<and>
   detour_over (run example_host (Some example_root) (initialShell None None)
     [''help'', ''no'', ''cd books'', ''help'', ''yes'', ''help'', ''no'']) \<and>
   detour_over (run example_host (Some example_root) (initialShell None None)
     [''help'', ''no'', ''cd books'', ''help'', ''yes'', ''help'', ''no'', ''cd books'']) \<and>
   execute example_host (Some example_root)
     (run example_host (Some example_root) (initialShell None None)
        [''help'', ''no'', ''cd books'', ''help'', ''yes'', ''help'', ''no'', ''cd books''])
     ''help'' =
     [Dispatch (ADD_HISTORY
        (echo_of (run example_host (Some example_root) (initialShell None None)
           [''help'', ''no'', ''cd books'', ''help'', ''yes'', ''help'', ''no'', ''cd books''])
           ''help'')),
      Dispatch (ADD_COMMAND ''help''), SetHistoryPointer None, addOutput (Canned HelpGrid)]"
proof -
  let ?h = example_host and ?fs = "Some example_root"
  let ?s0 = "initialShell None None"
  let ?s1 = "submit ?h ?fs ?s0 ''help''"
  let ?s2 = "submit ?h ?fs ?s1 ''no''"
  let ?s3 = "submit ?h ?fs ?s2 ''cd books''"
  let ?s4 = "submit ?h ?fs ?s3 ''help''"
  let ?s5 = "submit ?h ?fs ?s4 ''yes''"
  let ?s6 = "submit ?h ?fs ?s5 ''help''"
  let ?s7 = "submit ?h ?fs ?s6 ''no''"
  let ?yes = "\<lparr>raw = ''yes'', commandName = Str ''yes'', args = [], error = None\<rparr>"
  let ?no = "\<lparr>raw = ''no'', commandName = Str ''no'', args = [], error = None\<rparr>"
  let ?hlp = "\<lparr>raw = ''help'', commandName = Str ''help'', args = [], error = None\<rparr>"
  note inst = help_detour_once [where h = ?h and fs = ?fs and root = example_root]
  have s0: "detour_open ?s0"
    by (simp add: detour_open_def initialShell_def)
  have y_ok: "parsed_ok ''yes'' ?yes" and n_ok: "parsed_ok ''no'' ?no"
    and h_ok: "parsed_ok ''help'' ?hlp"
    by (simp_all add: parsed_ok_def parse_example)
  have cd: "parseCommand ''cd books'' =
      Some \<lparr>raw = ''cd books'', commandName = Str ''cd'', args = [''books''], error = None\<rparr>"
    by code_simp
  have other: "\<forall>l \<in> set [''cd books'']. \<forall>q. parsed_ok l q \<longrightarrow> commandName q \<noteq> Str ''help''"
    by (auto simp: parsed_ok_def cd)
  have ty: "toLowerCase (trim ''yes'') = ''yes''" and tn: "toLowerCase (trim ''no'') = ''no''"
    and th: "toLowerCase (trim ''help'') = ''help''"
    by code_simp+
  have s1: "helpWizardStep ?s1 = WStart \<and> \<not> helpWizardSeen ?s1"
    using inst [where sh = ?s0 and rawLine = "''help''" and p = ?hlp and ls = "[]"] s0 h_ok
    by simp
  have s2: "detour_open ?s2"
    using inst [where sh = ?s1 and rawLine = "''no''" and p = ?no and ls = "[]"] s1 n_ok tn
    by (simp add: detour_open_def)
  have s3: "detour_open ?s3"
    using inst [where sh = ?s2 and rawLine = "''help''" and p = ?hlp and ls = "[''cd books'']"]
      s2 other
    by simp
  have s4: "helpWizardStep ?s4 = WStart"
    using inst [where sh = ?s3 and rawLine = "''help''" and p = ?hlp and ls = "[]"] s3 h_ok
    by simp
  have s5: "detour_done ?s5 \<and> helpWizardStep ?s5 = WExperience"
    using inst [where sh = ?s4 and rawLine = "''yes''" and p = ?yes and ls = "[]"] s4 y_ok ty
    by simp
  have s6: "helpWizardStep ?s6 = WExperience \<and> helpWizardSeen ?s6"
    using inst [where sh = ?s5 and rawLine = "''help''" and p = ?hlp and ls = "[]"] s5 h_ok th
    by (simp add: detour_done_def)
  then have d6: "detour_done ?s6"
    by (simp add: detour_done_def)
  have s7: "detour_over ?s7"
    using inst [where sh = ?s6 and rawLine = "''no''" and p = ?no and ls = "[]"] s6 d6 n_ok tn
    by simp
  have over: "detour_over (run ?h ?fs ?s7 [''cd books''])"
    using inst [where sh = ?s7 and rawLine = "''help''" and p = ?hlp and ls = "[''cd books'']"] s7
    by simp
  have grid: "execute ?h ?fs (run ?h ?fs ?s7 [''cd books'']) ''help'' =
     [Dispatch (ADD_HISTORY (echo_of (run ?h ?fs ?s7 [''cd books'']) ''help'')),
      Dispatch (ADD_COMMAND ''help''), SetHistoryPointer None, addOutput (Canned HelpGrid)]"
    using inst [where sh = ?s7 and rawLine = "''help''" and p = ?hlp and ls = "[''cd books'']"]
      s7 h_ok
    by simp
  from s0 h_ok s1 n_ok s2 s3 s4 y_ok s5 s6 s7 over grid show ?thesis
    by simp
qed

section \<open>Errors are local\<close>

lemma ends_in_error_tail:
  "ends_in_error h fs sh rawLine \<longleftrightarrow>
     trim rawLine \<noteq> [] \<and> (\<exists>e \<in> set (after_echo h fs sh rawLine). is_error_effect e)"
  by (auto simp: ends_in_error_def execute_def)

lemma dispatched_error:
  assumes "dispatched sh rawLine p"
  shows "ends_in_error h (Some root) sh rawLine \<longleftrightarrow>
     (\<exists>e \<in> set (dispatch_command h root sh rawLine p). is_error_effect e)"
  using assms parseCommand_Some_trim [of rawLine p]
  by (simp add: ends_in_error_tail after_echo_def dispatched_def parsed_ok_def truthy_def)

lemma is_error_addError [simp]: "is_error_effect (addError m f)"
  by (simp add: addError_def)

text \<open>
  What follows the echo in an execution that ends in an error: one error entry, after
  the write of the flag when the line reaches \<^verbatim>\<open>case 'open'\<close>.
\<close>

lemma after_echo_error:
  assumes "\<exists>e \<in> set (after_echo h fs sh rawLine). is_error_effect e"
  shows "\<exists>err. item_type err = Error \<and>
     after_echo h fs sh rawLine =
       (if open_dispatched fs sh rawLine then [SetHasUsedOpen True] else []) @
       [Dispatch (ADD_HISTORY err)]"
proof (cases "open_dispatched fs sh rawLine")
  case True
  then obtain es where es: "after_echo h fs sh rawLine = SetHasUsedOpen True # es"
    and "handled es"
    using after_echo_open_shape [of fs sh rawLine h] by blast
  moreover from assms es have "\<not> no_error es"
    by (auto simp: no_error_def)
  ultimately have "error_only es"
    by (simp add: handled_def)
  with es True show ?thesis
    by (auto simp: error_only_def)
next
  case False
  then have "handled (after_echo h fs sh rawLine)"
    by (rule after_echo_shape)
  moreover from assms have "\<not> no_error (after_echo h fs sh rawLine)"
    by (auto simp: no_error_def)
  ultimately have "error_only (after_echo h fs sh rawLine)"
    by (simp add: handled_def)
  with False show ?thesis
    by (auto simp: error_only_def)
qed

text \<open>
  C9, as the specification states it, fails: a line that ends in an error is recorded in
  the command-string history, which is part of the session state, and echoed in the
  display log before the error entry.
\<close>

theorem error_counterexample:
  "ends_in_error example_host (Some example_root) (initialShell None None) ''cat'' \<and>
   commandHistory (state (initialShell None None)) = [] \<and>
   commandHistory (state
      (submit example_host (Some example_root) (initialShell None None) ''cat'')) = [''cat''] \<and>
   map item_type (history (state
      (submit example_host (Some example_root) (initialShell None None) ''cat''))) =
     [Banner, Command, Error]"
  by code_simp

text \<open>
  A command name that the alias table maps to a member of \<^verbatim>\<open>Object.prototype\<close> makes
  the search for a correction throw: the line is echoed and recorded, and no error
  entry follows.
\<close>

lemma execute_constructor_throws:
  "execute example_host (Some example_root) (initialShell None None) ''constructor'' =
     [Dispatch (ADD_HISTORY \<lparr>item_type = Command, content = Text ''constructor'',
                              path = Some ''/''\<rparr>),
      Dispatch (ADD_COMMAND ''constructor''), SetHistoryPointer None, ThrowTypeError]"
  by code_simp

text \<open>
  C9, amended. Every command execution that ends in an error appends, after the echo of
  the line, exactly one error entry to the display log and, as every execution does,
  records the line in the command-string history and resets the position of the recall
  in that history. It leaves the working-directory stack, the current working
  directory, the pending question and the mark of the onboarding detour and the last
  opened file unchanged. It leaves the flag that hides the onboarding hint chips
  unchanged too, unless the line reaches \<^verbatim>\<open>open\<close> in the dispatcher: an \<^verbatim>\<open>open\<close> sets
  the flag before it looks at its argument, so that a failing \<^verbatim>\<open>open\<close> hides the hint
  chips as a successful one does. Nothing else of the shell changes, and the execution
  does not throw. Executions end so for a line with an unclosed quote, for a dispatched
  line when the content tree is not loaded, for a command name that is a string outside
  the command table, for \<^verbatim>\<open>cat\<close>, \<^verbatim>\<open>open\<close> and \<^verbatim>\<open>search\<close> without argument, for
  \<^verbatim>\<open>cd\<close>, \<^verbatim>\<open>cat\<close> and \<^verbatim>\<open>open\<close> on a path that does not resolve, for \<^verbatim>\<open>cd\<close> on what is
  not a directory and for \<^verbatim>\<open>cat\<close> on a directory.
\<close>

theorem error_is_local:
  "(ends_in_error h fs sh rawLine \<longrightarrow>
      (\<exists>err. item_type err = Error \<and>
         submit h fs sh rawLine =
           sh\<lparr>state := (state sh)
                  \<lparr>history := history (state sh) @
                     [\<lparr>item_type = Command, content = Text rawLine,
                       path = Some (currentCwd (state sh))\<rparr>, err],
                   commandHistory := commandHistory (state sh) @ [rawLine]\<rparr>,
              historyPointer := None,
              hasUsedOpen := (hasUsedOpen sh \<or> open_dispatched fs sh rawLine)\<rparr>) \<and>
      cwds (state (submit h fs sh rawLine)) = cwds (state sh) \<and>
      currentCwd (state (submit h fs sh rawLine)) = currentCwd (state sh) \<and>
      helpWizardStep (submit h fs sh rawLine) = helpWizardStep sh \<and>
      helpWizardSeen (submit h fs sh rawLine) = helpWizardSeen sh \<and>
      lastOpenedFilePath (submit h fs sh rawLine) = lastOpenedFilePath sh \<and>
      hasUsedOpen (submit h fs sh rawLine) = (hasUsedOpen sh \<or> open_dispatched fs sh rawLine) \<and>
      ThrowTypeError \<notin> set (execute h fs sh rawLine)) \<and>
   (quote_open_at_end rawLine \<longrightarrow> ends_in_error h fs sh rawLine) \<and>
   (dispatched sh rawLine p \<longrightarrow> ends_in_error h None sh rawLine) \<and>
   (dispatched sh rawLine p \<and> commandName p = Str n \<and> n \<notin> set known_commands \<longrightarrow>
      ends_in_error h (Some root) sh rawLine) \<and>
   (dispatched sh rawLine p \<and> args p = [] \<and>
    commandName p \<in> {Str ''cat'', Str ''open'', Str ''search''} \<longrightarrow>
      ends_in_error h (Some root) sh rawLine) \<and>
   (dispatched sh rawLine p \<and> args p = a # as \<and> a \<noteq> [] \<and>
    commandName p \<in> {Str ''cd'', Str ''cat'', Str ''open''} \<and>
    resolvePath root (currentCwd (state sh)) a = None \<longrightarrow>
      ends_in_error h (Some root) sh rawLine) \<and>
   (dispatched sh rawLine p \<and> args p = a # as \<and> a \<noteq> [] \<and>
    resolvePath root (currentCwd (state sh)) a = Some t \<and> getNodeAtPath root t = Some node \<and>
    (commandName p = Str ''cd'' \<and> \<not> is_dir node \<or> commandName p = Str ''cat'' \<and> is_dir node) \<longrightarrow>
      ends_in_error h (Some root) sh rawLine) \<and>
   (dispatched sh rawLine p \<and> commandName p = Str ''open'' \<longrightarrow>
      open_dispatched (Some root) sh rawLine \<and>
      hasUsedOpen (submit h (Some root) sh rawLine))"
proof -
  have whole: "\<exists>err. item_type err = Error \<and>
         submit h fs sh rawLine =
           sh\<lparr>state := (state sh)
                  \<lparr>history := history (state sh) @
                     [\<lparr>item_type = Command, content = Text rawLine,
                       path = Some (currentCwd (state sh))\<rparr>, err],
                   commandHistory := commandHistory (state sh) @ [rawLine]\<rparr>,
              historyPointer := None,
              hasUsedOpen := (hasUsedOpen sh \<or> open_dispatched fs sh rawLine)\<rparr>"
    and nothrow: "ThrowTypeError \<notin> set (execute h fs sh rawLine)"
    if e: "ends_in_error h fs sh rawLine"
  proof -
    let ?es = "after_echo h fs sh rawLine"
    from e have t: "trim rawLine \<noteq> []" and "\<exists>e \<in> set ?es. is_error_effect e"
      by (auto simp: ends_in_error_tail)
    then obtain err where err: "item_type err = Error"
      and es: "?es = (if open_dispatched fs sh rawLine then [SetHasUsedOpen True] else []) @
                 [Dispatch (ADD_HISTORY err)]"
      using after_echo_error [of h fs sh rawLine] by blast
    from t es show "ThrowTypeError \<notin> set (execute h fs sh rawLine)"
      by (simp add: execute_def)
    from t es have "submit h fs sh rawLine =
           sh\<lparr>state := (state sh)
                  \<lparr>history := history (state sh) @
                     [\<lparr>item_type = Command, content = Text rawLine,
                       path = Some (currentCwd (state sh))\<rparr>, err],
                   commandHistory := commandHistory (state sh) @ [rawLine]\<rparr>,
              historyPointer := None,
              hasUsedOpen := (hasUsedOpen sh \<or> open_dispatched fs sh rawLine)\<rparr>"
      by (cases "open_dispatched fs sh rawLine") (simp_all add: submit_def execute_def)
    with err show "\<exists>err. item_type err = Error \<and>
         submit h fs sh rawLine =
           sh\<lparr>state := (state sh)
                  \<lparr>history := history (state sh) @
                     [\<lparr>item_type = Command, content = Text rawLine,
                       path = Some (currentCwd (state sh))\<rparr>, err],
                   commandHistory := commandHistory (state sh) @ [rawLine]\<rparr>,
              historyPointer := None,
              hasUsedOpen := (hasUsedOpen sh \<or> open_dispatched fs sh rawLine)\<rparr>"
      by blast
  qed
  have local: "(\<exists>err. item_type err = Error \<and>
         submit h fs sh rawLine =
           sh\<lparr>state := (state sh)
                  \<lparr>history := history (state sh) @
                     [\<lparr>item_type = Command, content = Text rawLine,
                       path = Some (currentCwd (state sh))\<rparr>, err],
                   commandHistory := commandHistory (state sh) @ [rawLine]\<rparr>,
              historyPointer := None,
              hasUsedOpen := (hasUsedOpen sh \<or> open_dispatched fs sh rawLine)\<rparr>) \<and>
      cwds (state (submit h fs sh rawLine)) = cwds (state sh) \<and>
      currentCwd (state (submit h fs sh rawLine)) = currentCwd (state sh) \<and>
      helpWizardStep (submit h fs sh rawLine) = helpWizardStep sh \<and>
      helpWizardSeen (submit h fs sh rawLine) = helpWizardSeen sh \<and>
      lastOpenedFilePath (submit h fs sh rawLine) = lastOpenedFilePath sh \<and>
      hasUsedOpen (submit h fs sh rawLine) = (hasUsedOpen sh \<or> open_dispatched fs sh rawLine) \<and>
      ThrowTypeError \<notin> set (execute h fs sh rawLine)"
    if e: "ends_in_error h fs sh rawLine"
  proof -
    from whole [OF e] obtain err where
      eq: "submit h fs sh rawLine =
           sh\<lparr>state := (state sh)
                  \<lparr>history := history (state sh) @
                     [\<lparr>item_type = Command, content = Text rawLine,
                       path = Some (currentCwd (state sh))\<rparr>, err],
                   commandHistory := commandHistory (state sh) @ [rawLine]\<rparr>,
              historyPointer := None,
              hasUsedOpen := (hasUsedOpen sh \<or> open_dispatched fs sh rawLine)\<rparr>"
      by blast
    have fields: "cwds (state (submit h fs sh rawLine)) = cwds (state sh) \<and>
      currentCwd (state (submit h fs sh rawLine)) = currentCwd (state sh) \<and>
      helpWizardStep (submit h fs sh rawLine) = helpWizardStep sh \<and>
      helpWizardSeen (submit h fs sh rawLine) = helpWizardSeen sh \<and>
      lastOpenedFilePath (submit h fs sh rawLine) = lastOpenedFilePath sh \<and>
      hasUsedOpen (submit h fs sh rawLine) = (hasUsedOpen sh \<or> open_dispatched fs sh rawLine)"
      by (simp add: eq)
    from whole [OF e] fields nothrow [OF e] show ?thesis
      by blast
  qed
  have quote: "ends_in_error h fs sh rawLine" if q: "quote_open_at_end rawLine"
  proof -
    from q parse_error_iff [of rawLine] obtain pe
      where pe: "parseCommand rawLine = Some pe" "error pe \<noteq> None"
      by auto
    with parse_error_kinds [of rawLine pe] parseCommand_Some_trim [of rawLine pe]
    show ?thesis
      by (auto simp: ends_in_error_tail after_echo_def truthy_def)
  qed
  have nofs: "ends_in_error h None sh rawLine" if "dispatched sh rawLine p"
    using that parseCommand_Some_trim [of rawLine p]
    by (simp add: ends_in_error_tail after_echo_def dispatched_def parsed_ok_def truthy_def)
  have unknown: "ends_in_error h (Some root) sh rawLine"
    if "dispatched sh rawLine p \<and> commandName p = Str n \<and> n \<notin> set known_commands"
    using that
    by (simp add: dispatched_error [of sh rawLine p] dispatch_command_def known_commands_def
        runDefault_def Let_def)
  have missing: "ends_in_error h (Some root) sh rawLine"
    if "dispatched sh rawLine p \<and> args p = [] \<and>
        commandName p \<in> {Str ''cat'', Str ''open'', Str ''search''}"
    using that
    by (auto simp: dispatched_error [of sh rawLine p] dispatch_command_def runCat_def
        runOpen_def runSearch_def nth_opt_def truthy_def toLowerCase_def Let_def)
  have notfound: "ends_in_error h (Some root) sh rawLine"
    if "dispatched sh rawLine p \<and> args p = a # as \<and> a \<noteq> [] \<and>
        commandName p \<in> {Str ''cd'', Str ''cat'', Str ''open''} \<and>
        resolvePath root (currentCwd (state sh)) a = None"
    using that
    by (auto simp: dispatched_error [of sh rawLine p] dispatch_command_def runCat_def
        runOpen_def runCd_def nth_opt_def truthy_def Let_def)
  have wrongkind: "ends_in_error h (Some root) sh rawLine"
    if a: "dispatched sh rawLine p \<and> args p = a # as \<and> a \<noteq> [] \<and>
        resolvePath root (currentCwd (state sh)) a = Some t \<and> getNodeAtPath root t = Some node \<and>
        (commandName p = Str ''cd'' \<and> \<not> is_dir node \<or> commandName p = Str ''cat'' \<and> is_dir node)"
  proof -
    from a have "t \<noteq> []"
      by (auto simp: resolvePath_def Let_def split: if_splits)
    with a show ?thesis
      by (auto simp: dispatched_error [of sh rawLine p] dispatch_command_def runCat_def
          runCd_def nth_opt_def truthy_def Let_def)
  qed
  have opened: "open_dispatched (Some root) sh rawLine \<and>
      hasUsedOpen (submit h (Some root) sh rawLine)"
    if a: "dispatched sh rawLine p \<and> commandName p = Str ''open''"
  proof -
    from a have d: "dispatched sh rawLine p"
      by simp
    from a have "open_dispatched (Some root) sh rawLine"
      by (simp add: open_dispatched_def dispatched_def parsed_ok_def truthy_def)
    moreover have "hasUsedOpen (foldl apply_effect s (runOpen h root sh (args p)))" if "hasUsedOpen s" for s
      using that
      by (simp add: runOpen_def Let_def addError_def addOutput_def pushUrl_def
          split: option.splits)
    then have "hasUsedOpen (submit h (Some root) sh rawLine)"
      using a by (simp add: submit_def execute_dispatch [OF d] dispatch_command_def)
    ultimately show ?thesis
      by simp
  qed
  from local quote nofs unknown missing notfound wrongkind opened show ?thesis
    by blast
qed

text \<open>
  The witness runs, from the initial shell, one line of each kind; \<^verbatim>\<open>cat\<close> without
  argument leaves the flag of the hint chips unset, \<^verbatim>\<open>open\<close> without argument sets
  it.
\<close>

theorem error_is_local_witness:
  "ends_in_error example_host (Some example_root) (initialShell None None) ''cat'' \<and>
   cwds (state (submit example_host (Some example_root) (initialShell None None) ''cat'')) =
     [''/''] \<and>
   commandHistory (state
     (submit example_host (Some example_root) (initialShell None None) ''cat'')) = [''cat''] \<and>
   length (history (state
     (submit example_host (Some example_root) (initialShell None None) ''cat''))) = 3 \<and>
   historyPointer (submit example_host (Some example_root) (initialShell None None) ''cat'') =
     None \<and>
   \<not> hasUsedOpen (submit example_host (Some example_root) (initialShell None None) ''cat'') \<and>
   dispatched (initialShell None None) ''open''
     \<lparr>raw = ''open'', commandName = Str ''open'', args = [], error = None\<rparr> \<and>
   ends_in_error example_host (Some example_root) (initialShell None None) ''open'' \<and>
   open_dispatched (Some example_root) (initialShell None None) ''open'' \<and>
   hasUsedOpen (submit example_host (Some example_root) (initialShell None None) ''open'') \<and>
   cwds (state (submit example_host (Some example_root) (initialShell None None) ''open'')) =
     [''/''] \<and>
   quote_open_at_end ''cat 'abc'' \<and>
   ends_in_error example_host (Some example_root) (initialShell None None) ''cat 'abc'' \<and>
   dispatched (initialShell None None) ''ls''
     \<lparr>raw = ''ls'', commandName = Str ''ls'', args = [], error = None\<rparr> \<and>
   ends_in_error example_host None (initialShell None None) ''ls'' \<and>
   ''lls'' \<notin> set known_commands \<and>
   ends_in_error example_host (Some example_root) (initialShell None None) ''lls'' \<and>
   resolvePath example_root ''/'' ''nope'' = None \<and>
   ends_in_error example_host (Some example_root) (initialShell None None) ''cd nope'' \<and>
   resolvePath example_root ''/'' ''about'' = Some ''/about'' \<and>
   ends_in_error example_host (Some example_root) (initialShell None None) ''cd about'' \<and>
   resolvePath example_root ''/'' ''books'' = Some ''/books'' \<and>
   ends_in_error example_host (Some example_root) (initialShell None None) ''cat books''"
proof -
  let ?h = example_host and ?fs = "Some example_root" and ?s = "initialShell None None"
  note inst = error_is_local [where h = ?h and sh = ?s and root = example_root]
  have w: "helpWizardStep ?s = WNone" and cwd: "currentCwd (state ?s) = ''/''"
    and st: "cwds (state ?s) = [''/'']" "commandHistory (state ?s) = []"
      "length (history (state ?s)) = 1" "\<not> hasUsedOpen ?s"
    by (simp_all add: initialShell_def getInitialState_def or_default_def)
  have disp: "dispatched ?s l p" if "parseCommand l = Some p" "error p = None" for l p
    using that w by (simp add: dispatched_def parsed_ok_def)
  have missing: "ends_in_error ?h ?fs ?s ''cat''"
    using inst [where fs = ?fs and rawLine = "''cat''" and
        p = "\<lparr>raw = ''cat'', commandName = Str ''cat'', args = [], error = None\<rparr>"]
      disp [OF parse_example(8)]
    by simp
  have nopen: "\<not> open_dispatched ?fs ?s ''cat''"
    by (simp add: open_dispatched_def parse_example(8))
  have local: "cwds (state (submit ?h ?fs ?s ''cat'')) = [''/''] \<and>
      commandHistory (state (submit ?h ?fs ?s ''cat'')) = [''cat''] \<and>
      length (history (state (submit ?h ?fs ?s ''cat''))) = 3 \<and>
      historyPointer (submit ?h ?fs ?s ''cat'') = None \<and>
      \<not> hasUsedOpen (submit ?h ?fs ?s ''cat'')"
  proof -
    let ?l = "''cat''"
    let ?after = "\<lambda>err. ?s\<lparr>state := (state ?s)
                \<lparr>history := history (state ?s) @
                   [\<lparr>item_type = Command, content = Text ?l,
                     path = Some (currentCwd (state ?s))\<rparr>, err],
                 commandHistory := commandHistory (state ?s) @ [?l]\<rparr>,
            historyPointer := None,
            hasUsedOpen := (hasUsedOpen ?s \<or> open_dispatched ?fs ?s ?l)\<rparr>"
    have "ends_in_error ?h ?fs ?s ?l \<longrightarrow>
        (\<exists>err. item_type err = Error \<and> submit ?h ?fs ?s ?l = ?after err) \<and>
        cwds (state (submit ?h ?fs ?s ?l)) = cwds (state ?s) \<and>
        currentCwd (state (submit ?h ?fs ?s ?l)) = currentCwd (state ?s) \<and>
        helpWizardStep (submit ?h ?fs ?s ?l) = helpWizardStep ?s \<and>
        helpWizardSeen (submit ?h ?fs ?s ?l) = helpWizardSeen ?s \<and>
        lastOpenedFilePath (submit ?h ?fs ?s ?l) = lastOpenedFilePath ?s \<and>
        hasUsedOpen (submit ?h ?fs ?s ?l) = (hasUsedOpen ?s \<or> open_dispatched ?fs ?s ?l) \<and>
        ThrowTypeError \<notin> set (execute ?h ?fs ?s ?l)"
      using inst [where fs = ?fs and rawLine = ?l] by (rule conjunct1)
    with missing have "\<exists>err. item_type err = Error \<and> submit ?h ?fs ?s ?l = ?after err"
      by (elim impE conjE)
    then obtain err where "submit ?h ?fs ?s ?l = ?after err"
      by (elim exE conjE)
    then have "cwds (state (submit ?h ?fs ?s ?l)) = cwds (state ?s)"
      and "commandHistory (state (submit ?h ?fs ?s ?l)) = commandHistory (state ?s) @ [?l]"
      and "length (history (state (submit ?h ?fs ?s ?l))) = length (history (state ?s)) + 2"
      and "historyPointer (submit ?h ?fs ?s ?l) = None"
      and "hasUsedOpen (submit ?h ?fs ?s ?l) = (hasUsedOpen ?s \<or> open_dispatched ?fs ?s ?l)"
      by simp_all
    with st nopen show ?thesis
      by simp
  qed
  have po: "parseCommand ''open'' =
      Some \<lparr>raw = ''open'', commandName = Str ''open'', args = [], error = None\<rparr>"
    by code_simp
  have od: "dispatched ?s ''open''
      \<lparr>raw = ''open'', commandName = Str ''open'', args = [], error = None\<rparr>"
    using disp [OF po] by simp
  have oerr: "ends_in_error ?h ?fs ?s ''open''"
    using inst [where fs = ?fs and rawLine = "''open''" and
        p = "\<lparr>raw = ''open'', commandName = Str ''open'', args = [], error = None\<rparr>"] od
    by simp
  have oflag: "open_dispatched ?fs ?s ''open'' \<and> hasUsedOpen (submit ?h ?fs ?s ''open'')"
    using inst [where fs = ?fs and rawLine = "''open''" and
        p = "\<lparr>raw = ''open'', commandName = Str ''open'', args = [], error = None\<rparr>"] od
    by simp
  have ocwd: "cwds (state (submit ?h ?fs ?s ''open'')) = [''/'']"
    using inst [where fs = ?fs and rawLine = "''open''"] oerr st by simp
  have q: "quote_open_at_end ''cat 'abc''"
    by code_simp
  have quote: "ends_in_error ?h ?fs ?s ''cat 'abc''"
    using inst [where fs = ?fs and rawLine = "''cat 'abc''"] q by simp
  have ls: "dispatched ?s ''ls'' \<lparr>raw = ''ls'', commandName = Str ''ls'', args = [], error = None\<rparr>"
    using disp [OF parse_example(6)] by simp
  have nofs: "ends_in_error ?h None ?s ''ls''"
    using inst [where fs = None and rawLine = "''ls''" and
        p = "\<lparr>raw = ''ls'', commandName = Str ''ls'', args = [], error = None\<rparr>"] ls
    by simp
  have k: "''lls'' \<notin> set known_commands"
    by (simp add: known_commands_def)
  have unknown: "ends_in_error ?h ?fs ?s ''lls''"
    using inst [where fs = ?fs and rawLine = "''lls''" and n = "''lls''" and
        p = "\<lparr>raw = ''lls'', commandName = Str ''lls'', args = [], error = None\<rparr>"]
      disp [OF parse_example(7)] k
    by simp
  have r1: "resolvePath example_root ''/'' ''nope'' = None"
    and r2: "resolvePath example_root ''/'' ''about'' = Some ''/about''"
    and r3: "resolvePath example_root ''/'' ''books'' = Some ''/books''"
    by code_simp+
  let ?about = "Node (FileNode ''about'' ''about''
           \<lparr>title = ''About Me'', date = None, tags = None, description = Some ''Meta info''\<rparr>
           (Some (''# About Me'' @ [CHR 0x0A, CHR 0x0A] @
                  ''I am Uday. This is my digital garden.'')))"
  let ?books = "Node (DirectoryNode ''books'' []
           (Some \<lparr>title = ''Book Collection'', date = None, tags = None, description = None\<rparr>))"
  have n2: "getNodeAtPath example_root ''/about'' = Some ?about"
    and n3: "getNodeAtPath example_root ''/books'' = Some ?books"
    by code_simp+
  have notfound: "ends_in_error ?h ?fs ?s ''cd nope''"
    using inst [where fs = ?fs and rawLine = "''cd nope''" and a = "''nope''" and as = "[]" and
        p = "\<lparr>raw = ''cd nope'', commandName = Str ''cd'', args = [''nope''], error = None\<rparr>"]
      disp [OF parse_example(9)] r1 cwd
    by simp
  have notdir: "ends_in_error ?h ?fs ?s ''cd about''"
    using inst [where fs = ?fs and rawLine = "''cd about''" and a = "''about''" and as = "[]" and
        t = "''/about''" and node = ?about and
        p = "\<lparr>raw = ''cd about'', commandName = Str ''cd'', args = [''about''], error = None\<rparr>"]
      disp [OF parse_example(10)] r2 n2 cwd
    by simp
  have isdir: "ends_in_error ?h ?fs ?s ''cat books''"
    using inst [where fs = ?fs and rawLine = "''cat books''" and a = "''books''" and as = "[]" and
        t = "''/books''" and node = ?books and
        p = "\<lparr>raw = ''cat books'', commandName = Str ''cat'', args = [''books''], error = None\<rparr>"]
      disp [OF parse_example(11)] r3 n3 cwd
    by simp
  from missing local od oerr oflag ocwd q quote ls nofs k unknown r1 notfound r2 notdir r3 isdir
  show ?thesis
    by simp
qed

section \<open>Path resolution\<close>

lemma split_not_Nil [simp]: "split c s \<noteq> []"
  by (induction s) (auto split: list.splits)

lemma split_no_sep: "c \<notin> set x \<Longrightarrow> split c x = [x]"
  by (induction x) auto

lemma split_append_sep: "c \<notin> set x \<Longrightarrow> split c (x @ c # rest) = x # split c rest"
  by (induction x) (auto split: list.splits)

lemma split_join:
  "xs \<noteq> [] \<Longrightarrow> \<forall>x \<in> set xs. c \<notin> set x \<Longrightarrow> split c (join [c] xs) = xs"
proof (induction "[c]" xs rule: join.induct)
  case 1
  then show ?case by simp
next
  case (2 x)
  then show ?case by (simp add: split_no_sep)
next
  case (3 x y ys)
  then show ?case by (simp add: split_append_sep)
qed

lemma set_split: "x \<in> set (split c s) \<Longrightarrow> c \<notin> set x"
  by (induction s arbitrary: x) (auto split: if_splits list.splits)

lemma segments_good: "p \<in> set (segments s) \<Longrightarrow> good_segment p"
  by (auto simp: segments_def good_segment_def dest: set_split)

lemma segments_join:
  assumes "\<forall>x \<in> set xs. good_segment x"
  shows "segments (''/'' @ join ''/'' xs) = xs"
proof (cases xs)
  case Nil
  then show ?thesis by (simp add: segments_def)
next
  case (Cons y ys)
  then have "split (CHR ''/'') (join ''/'' xs) = xs"
    using assms split_join [of xs "CHR ''/''"] by (auto simp: good_segment_def)
  moreover have "filter (\<lambda>p. p \<noteq> []) xs = xs"
    using assms by (auto simp: good_segment_def filter_id_conv)
  ultimately show ?thesis
    by (simp add: segments_def)
qed

lemma segments_join_relative:
  assumes "\<forall>x \<in> set xs. good_segment x"
  shows "segments (join ''/'' xs) = xs"
proof (cases xs)
  case Nil
  then show ?thesis by (simp add: segments_def)
next
  case (Cons y ys)
  then have "split (CHR ''/'') (join ''/'' xs) = xs"
    using assms split_join [of xs "CHR ''/''"] by (auto simp: good_segment_def)
  moreover have "filter (\<lambda>p. p \<noteq> []) xs = xs"
    using assms by (auto simp: good_segment_def filter_id_conv)
  ultimately show ?thesis
    by (simp add: segments_def)
qed

lemma fold_parts_set:
  "set (fold_parts stack parts) \<subseteq> set stack \<union> (set parts - {''.'', ''..''})"
proof (induction stack parts rule: fold_parts.induct)
  case (1 stack)
  then show ?case by simp
next
  case (2 stack p ps)
  then show ?case
    using in_set_butlastD [of _ stack] by (auto split: if_splits)
qed

lemma fold_parts_append:
  "fold_parts stack (ps @ qs) = fold_parts (fold_parts stack ps) qs"
  by (induction stack ps rule: fold_parts.induct) auto

lemma fold_parts_dotdots:
  "fold_parts stack (replicate n ''..'') = take (length stack - n) stack"
proof (induction n arbitrary: stack)
  case 0
  then show ?case by simp
next
  case (Suc n)
  have "take (length (butlast stack) - n) (butlast stack) = take (length stack - Suc n) stack"
    by (simp add: butlast_conv_take)
  with Suc show ?case by simp
qed

lemma walk_descend: "walk_stack c stack \<longleftrightarrow> descend c stack \<noteq> None"
  by (induction stack arbitrary: c) (auto split: option.splits)

lemma descend_append:
  "descend c (xs @ ys) = (case descend c xs of None \<Rightarrow> None | Some c' \<Rightarrow> descend c' ys)"
  by (induction xs arbitrary: c) (auto split: option.splits)

lemma descend_take: "descend c stack \<noteq> None \<Longrightarrow> descend c (take k stack) \<noteq> None"
  using descend_append [of c "take k stack" "drop k stack"]
  by (auto split: option.splits)

lemma fold_parts_length: "length (fold_parts stack parts) \<le> length stack + length parts"
  by (induction stack parts rule: fold_parts.induct) (auto split: if_splits)

lemma path_parts_good: "\<forall>p \<in> set (path_parts current target). good_segment p"
  by (auto simp: path_parts_def dest: segments_good)

lemma resolved_stack_good:
  "\<forall>p \<in> set (fold_parts [] (path_parts current target)).
     good_segment p \<and> p \<noteq> ''.'' \<and> p \<noteq> ''..''"
  using fold_parts_set [of "[]" "path_parts current target"] path_parts_good [of current target]
  by auto

lemma join_Cons_nonempty: "s \<noteq> [] \<Longrightarrow> join sep (s # ss) \<noteq> []"
  by (cases ss) simp_all

lemma getNodeAtPath_join:
  assumes "\<forall>p \<in> set stack. good_segment p"
  shows "getNodeAtPath root (''/'' @ join ''/'' stack) = descend (Node root) stack"
proof (cases stack)
  case Nil
  then show ?thesis by (simp add: getNodeAtPath_def)
next
  case (Cons s ss)
  with assms have "join ''/'' stack \<noteq> []"
    by (simp add: join_Cons_nonempty good_segment_def)
  then show ?thesis
    using segments_join [OF assms] by (simp add: getNodeAtPath_def)
qed

lemma resolvePath_eq:
  "resolvePath root current target =
     (if target = ''/'' \<or> target = ''~'' then Some ''/''
      else if descend (Node root) (fold_parts [] (path_parts current target)) = None then None
      else Some (''/'' @ join ''/'' (fold_parts [] (path_parts current target))))"
  by (simp add: resolvePath_def Let_def walk_descend)

lemma dotdots_Suc: "dotdots (Suc n) = ''..'' @ (if n = 0 then [] else ''/'' @ dotdots n)"
  by (cases n) (simp_all add: dotdots_def)

lemma dotdots_relative:
  "dotdots n \<noteq> ''/'' \<and> dotdots n \<noteq> ''~'' \<and> \<not> startsWith (dotdots n) ''/''"
  by (cases n) (simp_all add: dotdots_Suc, simp add: dotdots_def)

lemma segments_dotdots: "segments (dotdots n) = replicate n ''..''"
  unfolding dotdots_def by (rule segments_join_relative) (simp add: good_segment_def)

lemma resolvePath_dotdots:
  "resolvePath root current (dotdots n) =
     (let stack = take (length (fold_parts [] (segments current)) - n)
                    (fold_parts [] (segments current))
      in if walk_stack (Node root) stack then Some (''/'' @ join ''/'' stack) else None)"
  using dotdots_relative [of n]
  by (simp add: resolvePath_def path_parts_def segments_dotdots fold_parts_append
      fold_parts_dotdots Let_def)

lemma segments_dot: "segments ''.'' = [''.'']"
  by (simp add: segments_def)

section \<open>The resolver checks every segment\<close>

text \<open>
  The walk of the source against the walk of the specification: they agree on every
  segment that names a child, and on every final segment that is not the name of a
  member of \<^verbatim>\<open>Object.prototype\<close>; an intermediate segment that names no child stops
  both.
\<close>

lemma child_named: "named_child n s = Some c \<Longrightarrow> is_dir (Node n) \<and> child (Node n) s = Some (Node c)"
  by (cases n) (simp_all add: get_property_def)

lemma child_unnamed:
  "named_child n s = None \<Longrightarrow>
     child (Node n) s = (if is_dir (Node n) \<and> s \<in> set object_prototype_members
                         then Some Foreign else None)"
  by (cases n) (simp_all add: get_property_def)

lemma descend_Foreign: "ss \<noteq> [] \<Longrightarrow> descend Foreign ss = None"
  by (cases ss) simp_all

lemma descend_follow:
  "ordinary_final ss \<Longrightarrow> descend (Node n) ss = map_option Node (follow_children n ss)"
proof (induction ss arbitrary: n)
  case Nil
  show ?case by simp
next
  case (Cons s ss)
  show ?case
  proof (cases "named_child n s")
    case None
    have "descend Foreign ss = None" if "s \<in> set object_prototype_members"
    proof -
      from that Cons.prems have "ss \<noteq> []"
        by (auto simp: ordinary_final_def)
      then show ?thesis by (rule descend_Foreign)
    qed
    with None show ?thesis
      by (simp add: child_unnamed)
  next
    case (Some c)
    from Cons.prems have "ordinary_final ss"
      by (auto simp: ordinary_final_def split: if_splits)
    then have "descend (Node c) ss = map_option Node (follow_children c ss)"
      by (rule Cons.IH)
    with Some child_named [OF Some] show ?thesis
      by simp
  qed
qed

lemma descend_follow_prefix:
  "follow_children n (take k ss) = None \<Longrightarrow> k < length ss \<Longrightarrow> descend (Node n) ss = None"
proof (induction ss arbitrary: n k)
  case Nil
  then show ?case by simp
next
  case (Cons s ss)
  from Cons.prems obtain j where k: "k = Suc j" and j: "j < length ss"
    by (cases k) simp_all
  show ?case
  proof (cases "named_child n s")
    case None
    from j have "descend Foreign ss = None"
      by (intro descend_Foreign) auto
    with None show ?thesis
      by (simp add: child_unnamed)
  next
    case (Some c)
    with Cons.prems(1) k have "follow_children c (take j ss) = None"
      by simp
    then have "descend (Node c) ss = None"
      using j by (rule Cons.IH)
    with Some child_named [OF Some] show ?thesis
      by simp
  qed
qed

text \<open>
  C2, as the specification states it, fails: the walk of the resolver checks the final
  segment as it checks the others. In the tree below, \<^verbatim>\<open>books\<close> is a directory and has
  no child \<^verbatim>\<open>nope\<close>; the only intermediate segment of \<^verbatim>\<open>books/nope\<close> names an existing
  directory, and the resolver returns null.
\<close>

theorem resolvePath_counterexample:
  "fold_parts [] (path_parts ''/'' ''books/nope'') = [''books'', ''nope''] \<and>
   descend (Node example_root) [''books''] =
     Some (Node (DirectoryNode ''books'' []
       (Some \<lparr>title = ''Book Collection'', date = None, tags = None, description = None\<rparr>))) \<and>
   resolvePath example_root ''/'' ''books/nope'' = None"
  by code_simp

text \<open>
  C2, amended. The targets \<^verbatim>\<open>/\<close> and \<^verbatim>\<open>~\<close> resolve to the root. For every other
  target whose final folded segment is an ordinary name, the resolver succeeds exactly
  when every folded segment, the final one included, names a child of the directory
  reached so far on the walk from the root; it then returns the canonical absolute path,
  a slash followed by the folded segments joined by slashes, and Node Lookup of that
  path returns the node the walk has reached; otherwise it fails with NotFound, and so
  does Node Lookup of that path. An intermediate segment that names no child makes the
  resolver fail whatever the names of the segments. Whether the final node is a file or
  a directory is not checked by the resolver and left to the callers. A path that the
  resolver returns is canonical: a slash followed by its segments joined by slashes,
  none of them \<^verbatim>\<open>.\<close> or \<^verbatim>\<open>..\<close>. (A final segment is an ordinary name unless it is
  the name of a member that every object inherits, such as \<^verbatim>\<open>toString\<close>; for these
  nothing is stated.)
\<close>

theorem resolvePath_checks_every_segment:
  "(target = ''/'' \<or> target = ''~'' \<longrightarrow> resolvePath root current target = Some ''/'') \<and>
   (target \<noteq> ''/'' \<and> target \<noteq> ''~'' \<and>
    ordinary_final (fold_parts [] (path_parts current target)) \<longrightarrow>
      resolvePath root current target =
        map_option (\<lambda>n. ''/'' @ join ''/'' (fold_parts [] (path_parts current target)))
          (follow_children root (fold_parts [] (path_parts current target))) \<and>
      getNodeAtPath root (''/'' @ join ''/'' (fold_parts [] (path_parts current target))) =
        map_option Node (follow_children root (fold_parts [] (path_parts current target)))) \<and>
   (target \<noteq> ''/'' \<and> target \<noteq> ''~'' \<and>
    k < length (fold_parts [] (path_parts current target)) \<and>
    follow_children root (take k (fold_parts [] (path_parts current target))) = None \<longrightarrow>
      resolvePath root current target = None) \<and>
   (resolvePath root current target = Some p \<longrightarrow>
      p = ''/'' @ join ''/'' (segments p) \<and>
      ''.'' \<notin> set (segments p) \<and> ''..'' \<notin> set (segments p))"
proof -
  let ?stack = "fold_parts [] (path_parts current target)"
  have good: "\<forall>s \<in> set ?stack. good_segment s"
    using resolved_stack_good [of current target] by blast
  have plain: "''.'' \<notin> set ?stack \<and> ''..'' \<notin> set ?stack"
    using resolved_stack_good [of current target] by blast
  have c1: "resolvePath root current target = Some ''/''" if "target = ''/'' \<or> target = ''~''"
    using that by (auto simp: resolvePath_eq)
  have c2: "resolvePath root current target =
        map_option (\<lambda>n. ''/'' @ join ''/'' ?stack) (follow_children root ?stack) \<and>
      getNodeAtPath root (''/'' @ join ''/'' ?stack) =
        map_option Node (follow_children root ?stack)"
    if a: "target \<noteq> ''/'' \<and> target \<noteq> ''~'' \<and> ordinary_final ?stack"
  proof -
    from a have d: "descend (Node root) ?stack = map_option Node (follow_children root ?stack)"
      by (simp add: descend_follow)
    from a d have "resolvePath root current target =
        map_option (\<lambda>n. ''/'' @ join ''/'' ?stack) (follow_children root ?stack)"
      by (cases "follow_children root ?stack") (simp_all add: resolvePath_eq)
    with d getNodeAtPath_join [OF good, of root] show ?thesis
      by simp
  qed
  have c3: "resolvePath root current target = None"
    if a: "target \<noteq> ''/'' \<and> target \<noteq> ''~'' \<and> k < length ?stack \<and>
      follow_children root (take k ?stack) = None"
  proof -
    from a have "descend (Node root) ?stack = None"
      by (intro descend_follow_prefix [of root k]) simp_all
    with a show ?thesis
      by (simp add: resolvePath_eq)
  qed
  have c4: "p = ''/'' @ join ''/'' (segments p) \<and>
      ''.'' \<notin> set (segments p) \<and> ''..'' \<notin> set (segments p)"
    if r: "resolvePath root current target = Some p"
  proof (cases "target = ''/'' \<or> target = ''~''")
    case True
    with r have "p = ''/''" by (auto simp: resolvePath_eq)
    then show ?thesis by (simp add: segments_def)
  next
    case False
    with r have p: "p = ''/'' @ join ''/'' ?stack"
      by (auto simp: resolvePath_eq split: if_splits)
    from p have "segments p = ?stack"
      using segments_join [OF good] by simp
    with p plain show ?thesis
      by simp
  qed
  from c1 c2 c3 c4 show ?thesis
    by blast
qed

text \<open>
  The witness resolves \<^verbatim>\<open>~\<close>, a file through \<^verbatim>\<open>..\<close>, a directory written with
  \<^verbatim>\<open>.\<close> and a closing slash, and fails on a missing final segment, on a segment under a
  file and on a missing intermediate segment.
\<close>

theorem resolvePath_checks_every_segment_witness:
  "resolvePath example_root ''/books'' ''~'' = Some ''/'' \<and>
   fold_parts [] (path_parts ''/books'' ''../about'') = [''about''] \<and>
   ordinary_final [''about''] \<and>
   follow_children example_root [''about''] \<noteq> None \<and>
   resolvePath example_root ''/books'' ''../about'' = Some ''/about'' \<and>
   getNodeAtPath example_root ''/about'' =
     map_option Node (follow_children example_root [''about'']) \<and>
   ''/about'' = ''/'' @ join ''/'' (segments ''/about'') \<and>
   fold_parts [] (path_parts ''/'' ''./books/'') = [''books''] \<and>
   resolvePath example_root ''/'' ''./books/'' = Some ''/books'' \<and>
   getNodeAtPath example_root ''/books'' =
     map_option Node (follow_children example_root [''books'']) \<and>
   fold_parts [] (path_parts ''/'' ''books/nope'') = [''books'', ''nope''] \<and>
   follow_children example_root [''books'', ''nope''] = None \<and>
   resolvePath example_root ''/'' ''books/nope'' = None \<and>
   getNodeAtPath example_root ''/books/nope'' = None \<and>
   fold_parts [] (path_parts ''/'' ''about/x'') = [''about'', ''x''] \<and>
   resolvePath example_root ''/'' ''about/x'' = None \<and>
   fold_parts [] (path_parts ''/'' ''nope/toString'') = [''nope'', ''toString''] \<and>
   follow_children example_root (take 1 [''nope'', ''toString'']) = None \<and>
   resolvePath example_root ''/'' ''nope/toString'' = None"
proof -
  note inst = resolvePath_checks_every_segment [where root = example_root]
  have f1: "fold_parts [] (path_parts ''/books'' ''../about'') = [''about'']"
    and f2: "fold_parts [] (path_parts ''/'' ''./books/'') = [''books'']"
    and f3: "fold_parts [] (path_parts ''/'' ''books/nope'') = [''books'', ''nope'']"
    and f4: "fold_parts [] (path_parts ''/'' ''about/x'') = [''about'', ''x'']"
    and f5: "fold_parts [] (path_parts ''/'' ''nope/toString'') = [''nope'', ''toString'']"
    by code_simp+
  have o1: "ordinary_final [''about'']" and o2: "ordinary_final [''books'']"
    and o3: "ordinary_final [''books'', ''nope'']" and o4: "ordinary_final [''about'', ''x'']"
    by code_simp+
  have w1: "follow_children example_root [''about''] \<noteq> None"
    and w2: "follow_children example_root [''books''] \<noteq> None"
    and w3: "follow_children example_root [''books'', ''nope''] = None"
    and w4: "follow_children example_root [''about'', ''x''] = None"
    and w5: "follow_children example_root (take 1 [''nope'', ''toString'']) = None"
    by code_simp+
  have j1: "''/'' @ join ''/'' [''about''] = ''/about''"
    and j2: "''/'' @ join ''/'' [''books''] = ''/books''"
    and j3: "''/'' @ join ''/'' [''books'', ''nope''] = ''/books/nope''"
    by simp_all
  have r0: "resolvePath example_root ''/books'' ''~'' = Some ''/''"
    using inst [where current = "''/books''" and target = "''~''"] by simp
  have r1: "resolvePath example_root ''/books'' ''../about'' = Some ''/about'' \<and>
      getNodeAtPath example_root ''/about'' =
        map_option Node (follow_children example_root [''about''])"
    using inst [where current = "''/books''" and target = "''../about''"] f1 o1 w1 j1
    by auto
  have c1: "''/about'' = ''/'' @ join ''/'' (segments ''/about'')"
    using inst [where current = "''/books''" and target = "''../about''" and p = "''/about''"] r1
    by simp
  have r2: "resolvePath example_root ''/'' ''./books/'' = Some ''/books'' \<and>
      getNodeAtPath example_root ''/books'' =
        map_option Node (follow_children example_root [''books''])"
    using inst [where current = "''/''" and target = "''./books/''"] f2 o2 w2 j2
    by auto
  have r3: "resolvePath example_root ''/'' ''books/nope'' = None \<and>
      getNodeAtPath example_root ''/books/nope'' = None"
    using inst [where current = "''/''" and target = "''books/nope''"] f3 o3 w3 j3
    by simp
  have r4: "resolvePath example_root ''/'' ''about/x'' = None"
    using inst [where current = "''/''" and target = "''about/x''"] f4 o4 w4
    by simp
  have r5: "resolvePath example_root ''/'' ''nope/toString'' = None"
    using inst [where current = "''/''" and target = "''nope/toString''" and k = 1] f5 w5
    by simp
  from r0 f1 o1 w1 r1 c1 f2 r2 f3 w3 r3 f4 r4 f5 w5 r5 show ?thesis
    by simp
qed

section \<open>Parent segments clamp at the root\<close>

text \<open>
  C3. For every current directory and every target made of any number of segments
  \<^verbatim>\<open>..\<close>, each \<^verbatim>\<open>..\<close> pops the accumulator and a pop of the empty accumulator does
  nothing; the resolution is the walk along what is left of the segments of the current
  directory, it gives the root as soon as there are at least as many \<^verbatim>\<open>..\<close> as
  segments in the current directory, and it does not fail when the current directory
  itself resolves. Resolving \<^verbatim>\<open>../../..\<close> against the directory \<^verbatim>\<open>a\<close> gives the root.
\<close>

theorem dotdot_clamps_at_root:
  "fold_parts stack (replicate n ''..'') = take (length stack - n) stack \<and>
   fold_parts [] (replicate n ''..'') = [] \<and>
   resolvePath root current (dotdots n) =
     (let stack = take (length (fold_parts [] (segments current)) - n)
                    (fold_parts [] (segments current))
      in if walk_stack (Node root) stack then Some (''/'' @ join ''/'' stack) else None) \<and>
   (length (segments current) \<le> n \<longrightarrow> resolvePath root current (dotdots n) = Some ''/'') \<and>
   (resolvePath root current ''.'' \<noteq> None \<longrightarrow> resolvePath root current (dotdots n) \<noteq> None) \<and>
   dotdots 3 = ''../../..'' \<and>
   resolvePath root ''a'' ''../../..'' = Some ''/''"
proof -
  let ?S = "fold_parts [] (segments current)"
  have clamp: "resolvePath root current (dotdots n) = Some ''/''"
    if "length (segments current) \<le> n"
  proof -
    have "length ?S \<le> n"
      using fold_parts_length [of "[]" "segments current"] that by simp
    then show ?thesis
      by (simp add: resolvePath_dotdots)
  qed
  have never: "resolvePath root current (dotdots n) \<noteq> None"
    if "resolvePath root current ''.'' \<noteq> None"
  proof -
    from that have "walk_stack (Node root) ?S"
      by (simp add: resolvePath_def path_parts_def segments_dot fold_parts_append Let_def
          split: if_splits)
    then have "walk_stack (Node root) (take (length ?S - n) ?S)"
      by (simp add: walk_descend descend_take)
    then show ?thesis
      by (simp add: resolvePath_dotdots)
  qed
  have three: "dotdots 3 = ''../../..''"
    by (simp add: dotdots_def numeral_3_eq_3)
  have a: "resolvePath root ''a'' ''../../..'' = Some ''/''"
    by (simp add: resolvePath_def path_parts_def segments_def Let_def)
  from clamp never three a show ?thesis
    by (simp add: fold_parts_dotdots resolvePath_dotdots)
qed

theorem dotdot_clamps_at_root_witness:
  "length (segments ''/books'') \<le> 3 \<and>
   resolvePath example_root ''/books'' (dotdots 3) = Some ''/'' \<and>
   resolvePath example_root ''/books'' ''.'' \<noteq> None \<and>
   resolvePath example_root ''/books'' (dotdots 0) \<noteq> None \<and>
   fold_parts [''a'', ''b'', ''c''] (replicate 2 ''..'') = [''a'']"
proof -
  have l: "length (segments ''/books'') \<le> 3"
    by code_simp
  have r: "resolvePath example_root ''/books'' ''.'' \<noteq> None"
    by code_simp
  from dotdot_clamps_at_root [of "[''a'', ''b'', ''c'']" 2 example_root "''/books''"]
  have f: "fold_parts [''a'', ''b'', ''c''] (replicate 2 ''..'') = [''a'']"
    by simp
  from dotdot_clamps_at_root [of "[]" 3 example_root "''/books''"] l
  have c3: "resolvePath example_root ''/books'' (dotdots 3) = Some ''/''"
    by blast
  from dotdot_clamps_at_root [of "[]" 0 example_root "''/books''"] r
  have c0: "resolvePath example_root ''/books'' (dotdots 0) \<noteq> None"
    by blast
  from l c3 r c0 f show ?thesis
    by blast
qed

section \<open>The stable sort\<close>

lemma set_insert_by [simp]: "set (insert_by cmp x ys) = insert x (set ys)"
  by (induction ys) auto

lemma set_sort_by [simp]: "set (sort_by cmp xs) = set xs"
  by (induction xs) auto

lemma mset_insert_by [simp]: "mset (insert_by cmp x ys) = add_mset x (mset ys)"
  by (induction ys) auto

lemma mset_sort_by [simp]: "mset (sort_by cmp xs) = mset xs"
  by (induction xs) auto

lemma sorted_insert_by:
  assumes "sorted_wrt R ys"
    and "\<And>y. y \<in> set ys \<Longrightarrow> cmp x y \<le> 0 \<Longrightarrow> R x y"
    and "\<And>y. y \<in> set ys \<Longrightarrow> \<not> cmp x y \<le> 0 \<Longrightarrow> R y x"
    and "\<And>a b c. R a b \<Longrightarrow> R b c \<Longrightarrow> R a c"
  shows "sorted_wrt R (insert_by cmp x ys)"
  using assms(1-3)
proof (induction ys)
  case Nil
  then show ?case by simp
next
  case (Cons y ys)
  show ?case
  proof (cases "cmp x y \<le> 0")
    case True
    then have xy: "R x y" using Cons.prems(2) by simp
    have "R x z" if "z \<in> set ys" for z
      using xy Cons.prems(1) that assms(4) by auto
    with True xy Cons.prems(1) show ?thesis by auto
  next
    case False
    then have yx: "R y x" using Cons.prems(3) by simp
    have "sorted_wrt R (insert_by cmp x ys)"
      using Cons by auto
    with False yx Cons.prems(1) show ?thesis by auto
  qed
qed

lemma sorted_sort_by:
  assumes "\<And>x y. cmp x y \<le> 0 \<Longrightarrow> R x y"
    and "\<And>x y. \<not> cmp x y \<le> 0 \<Longrightarrow> R y x"
    and "\<And>a b c. R a b \<Longrightarrow> R b c \<Longrightarrow> R a c"
  shows "sorted_wrt R (sort_by cmp xs)"
proof (induction xs)
  case Nil
  show ?case by simp
next
  case (Cons x xs)
  show ?case
    using sorted_insert_by [OF Cons.IH, of cmp x] assms by auto
qed

lemma hd_sort_by:
  assumes "r \<in> set xs" and "\<And>x. x \<in> set xs \<Longrightarrow> x = r \<or> (cmp r x \<le> 0 \<and> \<not> cmp x r \<le> 0)"
  shows "sort_by cmp xs \<noteq> [] \<and> hd (sort_by cmp xs) = r"
  using assms
proof (induction xs)
  case Nil
  then show ?case by simp
next
  case (Cons x xs)
  note least = Cons.prems(2)
  show ?case
  proof (cases "r \<in> set xs")
    case True
    with Cons have ih: "sort_by cmp xs \<noteq> [] \<and> hd (sort_by cmp xs) = r" by auto
    then obtain rest where s: "sort_by cmp xs = r # rest"
      by (cases "sort_by cmp xs") auto
    from least [of x] have "x = r \<or> \<not> cmp x r \<le> 0" by auto
    with s show ?thesis by auto
  next
    case False
    with Cons.prems(1) have x: "x = r" by simp
    show ?thesis
    proof (cases "sort_by cmp xs")
      case Nil
      with x show ?thesis by simp
    next
      case sorted: (Cons y ys)
      then have y: "y \<in> set xs"
        using set_sort_by [of cmp xs] by auto
      with False have "y \<noteq> r" by auto
      with least [of y] y have "cmp r y \<le> 0" by auto
      with sorted x show ?thesis by simp
    qed
  qed
qed

section \<open>The order of the ranking\<close>

lemma make_row_simps [simp]:
  "candidate (make_row q c) = c"
  "score (make_row q c) = rank_score q c"
  "distance (make_row q c) = distance_of q c"
  by (simp_all add: make_row_def Let_def rank_score_def group_of_def distance_of_def)

lemma eligible_make_row:
  "eligible (getMaxEditDistance (length q)) (make_row q c) = eligible_candidate q c"
  by (simp add: eligible_def eligible_candidate_def make_row_def Let_def distance_of_def)

lemma slice0_take: "\<exists>k. slice0 xs limit = take k xs"
  by (auto simp: slice0_def)

lemma sorted_wrt_slice0: "sorted_wrt R xs \<Longrightarrow> sorted_wrt R (slice0 xs limit)"
  using slice0_take [of xs limit] by (auto simp: sorted_wrt_take)

lemma set_slice0: "set (slice0 xs limit) \<subseteq> set xs"
  using slice0_take [of xs limit] by (auto dest: in_set_takeD)

lemma rankCandidates_eq:
  "rankCandidates h query cs limit =
     (if toLowerCase (trim query) = [] then slice0 cs limit
      else slice0 (full_ranking h (toLowerCase (trim query)) cs) limit)"
proof -
  have "map f (slice0 xs limit) = slice0 (map f xs) limit" for f :: "rank_row \<Rightarrow> string" and xs
    by (simp add: slice0_def take_map)
  then show ?thesis
    by (simp add: rankCandidates_def full_ranking_def Let_def)
qed

lemma ranked_rows:
  "filter (eligible (getMaxEditDistance (length q))) (map (make_row q) cs) =
     map (make_row q) (filter (eligible_candidate q) cs)"
  by (induction cs) (simp_all add: eligible_make_row)

lemma full_ranking_eq:
  "full_ranking h q cs =
     map candidate (sort_by (compare_rows h) (map (make_row q) (filter (eligible_candidate q) cs)))"
  by (simp add: full_ranking_def ranked_rows)

lemma mset_full_ranking: "mset (full_ranking h q cs) = mset (filter (eligible_candidate q) cs)"
  by (simp add: full_ranking_eq image_mset.compositionality comp_def)

lemma compare_rows_le:
  "compare_rows h a b \<le> 0 \<longleftrightarrow>
     score a < score b \<or> (score a = score b \<and> localeCompare h (candidate a) (candidate b) \<le> 0)"
  by (auto simp: compare_rows_def)

lemma row_of_sorted:
  assumes "r \<in> set (sort_by (compare_rows h) (map (make_row q) (filter (eligible_candidate q) cs)))"
  shows "r = make_row q (candidate r) \<and> candidate r \<in> set cs"
  using assms by auto

lemma score_sorted:
  "sorted_wrt (\<lambda>a b. score a \<le> score b) (sort_by (compare_rows h) rows)"
  by (rule sorted_sort_by) (auto simp: compare_rows_le)

lemma compare_rows_total:
  assumes "localeCompare h (candidate x) (candidate y) \<le> 0 \<or>
           localeCompare h (candidate y) (candidate x) \<le> 0"
    and "\<not> compare_rows h x y \<le> 0"
  shows "compare_rows h y x \<le> 0"
proof (cases "score x = score y")
  case True
  with assms(2) have "\<not> localeCompare h (candidate x) (candidate y) \<le> 0"
    by (simp add: compare_rows_le)
  with assms(1) True show ?thesis
    by (simp add: compare_rows_le)
next
  case False
  with assms(2) have "score y < score x"
    by (simp add: compare_rows_le)
  then show ?thesis
    by (simp add: compare_rows_le)
qed

lemma compare_rows_trans:
  assumes "localeCompare h (candidate a) (candidate b) \<le> 0 \<Longrightarrow>
           localeCompare h (candidate b) (candidate c) \<le> 0 \<Longrightarrow>
           localeCompare h (candidate a) (candidate c) \<le> 0"
    and "compare_rows h a b \<le> 0" and "compare_rows h b c \<le> 0"
  shows "compare_rows h a c \<le> 0"
proof (cases "score a = score b \<and> score b = score c")
  case True
  with assms(2,3) have "localeCompare h (candidate a) (candidate b) \<le> 0"
    and "localeCompare h (candidate b) (candidate c) \<le> 0"
    by (simp_all add: compare_rows_le)
  then have "localeCompare h (candidate a) (candidate c) \<le> 0"
    by (rule assms(1))
  with True show ?thesis
    by (simp add: compare_rows_le)
next
  case False
  from assms(2,3) have "score a \<le> score b" and "score b \<le> score c"
    by (auto simp: compare_rows_le)
  with False have "score a < score c"
    by linarith
  then show ?thesis
    by (simp add: compare_rows_le)
qed

lemma compare_sorted:
  assumes "consistent_compare (localeCompare h)"
  shows "sorted_wrt (\<lambda>a b. compare_rows h a b \<le> 0) (sort_by (compare_rows h) rows)"
proof -
  have c: "(\<forall>a b. localeCompare h a b \<le> 0 \<or> localeCompare h b a \<le> 0) \<and>
      (\<forall>a b c. localeCompare h a b \<le> 0 \<and> localeCompare h b c \<le> 0 \<longrightarrow>
         localeCompare h a c \<le> 0)"
    using assms unfolding consistent_compare_def .
  note total = c [THEN conjunct1, rule_format]
  from c have tr: "\<forall>a b c. localeCompare h a b \<le> 0 \<and> localeCompare h b c \<le> 0 \<longrightarrow>
      localeCompare h a c \<le> 0"
    by (rule conjunct2)
  have trans: "localeCompare h a c \<le> 0"
    if "localeCompare h a b \<le> 0" and "localeCompare h b c \<le> 0" for a b c
    using tr that by blast
  have t1: "compare_rows h y x \<le> 0" if "\<not> compare_rows h x y \<le> 0" for x y
    using total that by (rule compare_rows_total)
  have t2: "compare_rows h a c \<le> 0" if "compare_rows h a b \<le> 0" "compare_rows h b c \<le> 0"
    for a b c
    using trans that by (rule compare_rows_trans)
  show ?thesis
  proof (rule sorted_sort_by [where R = "\<lambda>a b. compare_rows h a b \<le> 0"])
    fix x y assume "compare_rows h x y \<le> 0"
    then show "compare_rows h x y \<le> 0" .
  next
    fix x y assume "\<not> compare_rows h x y \<le> 0"
    then show "compare_rows h y x \<le> 0" by (rule t1)
  next
    fix a b c assume "compare_rows h a b \<le> 0" and "compare_rows h b c \<le> 0"
    then show "compare_rows h a c \<le> 0" by (rule t2)
  qed
qed

lemma weight_unique:
  assumes "(d::nat) < 100" and "d' < 100" and "g * 100 + d = g' * 100 + d'"
  shows "g = g' \<and> d = d'"
proof -
  have "(g * 100 + d) div 100 = g" and "(g' * 100 + d') div 100 = g'"
    using assms(1,2) by simp_all
  with assms(3) have "g = g'" by simp
  with assms(3) show ?thesis by simp
qed

lemma key_of_score:
  assumes "distance_of q d < 100" and "rank_score q c \<le> rank_score q d"
  shows "\<not> key_less (rank_key q d) (rank_key q c)"
  using assms by (auto simp: key_less_def rank_key_def rank_score_def)

lemma key_less_score:
  assumes "distance_of q c < 100" and "distance_of q d < 100"
  shows "rank_score q c < rank_score q d \<longleftrightarrow> key_less (rank_key q c) (rank_key q d)"
    and "rank_score q c = rank_score q d \<longleftrightarrow> rank_key q c = rank_key q d"
proof -
  show "rank_score q c < rank_score q d \<longleftrightarrow> key_less (rank_key q c) (rank_key q d)"
    using assms by (auto simp: key_less_def rank_key_def rank_score_def)
  show "rank_score q c = rank_score q d \<longleftrightarrow> rank_key q c = rank_key q d"
    using assms weight_unique [of "distance_of q c" "distance_of q d" "group_of q c" "group_of q d"]
    by (auto simp: rank_key_def rank_score_def)
qed

lemma full_ranking_by_key:
  assumes "\<forall>c \<in> set cs. distance_of q c < 100"
  shows "sorted_wrt (\<lambda>c d. \<not> key_less (rank_key q d) (rank_key q c)) (full_ranking h q cs)"
proof -
  let ?rows = "sort_by (compare_rows h) (map (make_row q) (filter (eligible_candidate q) cs))"
  have "sorted_wrt (\<lambda>a b. \<not> key_less (rank_key q (candidate b)) (rank_key q (candidate a))) ?rows"
  proof (rule sorted_wrt_mono_rel [OF _ score_sorted])
    fix a b assume "a \<in> set ?rows" "b \<in> set ?rows" "score a \<le> score b"
    then show "\<not> key_less (rank_key q (candidate b)) (rank_key q (candidate a))"
      using row_of_sorted [of a h q cs] row_of_sorted [of b h q cs] assms
        key_of_score [of q "candidate b" "candidate a"]
      by (metis make_row_simps(2))
  qed
  then show ?thesis
    by (simp add: full_ranking_eq sorted_wrt_map)
qed

lemma full_ranking_ties:
  assumes "\<forall>c \<in> set cs. distance_of q c < 100" and "consistent_compare (localeCompare h)"
  shows "sorted_wrt (ranked_before (localeCompare h) q) (full_ranking h q cs)"
proof -
  let ?rows = "sort_by (compare_rows h) (map (make_row q) (filter (eligible_candidate q) cs))"
  have "sorted_wrt (\<lambda>a b. ranked_before (localeCompare h) q (candidate a) (candidate b)) ?rows"
  proof (rule sorted_wrt_mono_rel [OF _ compare_sorted [OF assms(2)]])
    fix a b assume a: "a \<in> set ?rows" and b: "b \<in> set ?rows" and le: "compare_rows h a b \<le> 0"
    from a b have ra: "score a = rank_score q (candidate a)" "candidate a \<in> set cs"
      and rb: "score b = rank_score q (candidate b)" "candidate b \<in> set cs"
      using row_of_sorted [of a h q cs] row_of_sorted [of b h q cs]
      by (metis make_row_simps(2))+
    with assms(1) have "distance_of q (candidate a) < 100" "distance_of q (candidate b) < 100"
      by auto
    from key_less_score [OF this] le ra(1) rb(1)
    show "ranked_before (localeCompare h) q (candidate a) (candidate b)"
      by (auto simp: ranked_before_def compare_rows_le)
  qed
  then show ?thesis
    by (simp add: full_ranking_eq sorted_wrt_map)
qed

lemma compare_strings_total: "compare_strings a b \<le> 0 \<or> compare_strings b a \<le> 0"
  by (induction a b rule: compare_strings.induct) auto

lemma compare_strings_trans:
  "compare_strings a b \<le> 0 \<Longrightarrow> compare_strings b c \<le> 0 \<Longrightarrow> compare_strings a c \<le> 0"
proof (induction a arbitrary: b c)
  case Nil
  then show ?case by (cases c) simp_all
next
  case (Cons x xs)
  then obtain y ys where b: "b = y # ys" by (cases b) auto
  with Cons.prems obtain z zs where c: "c = z # zs" by (cases c) auto
  from Cons.prems b c Cons.IH [of ys zs] show ?case
    by (auto split: if_splits)
qed

lemma compare_strings_consistent: "consistent_compare compare_strings"
  unfolding consistent_compare_def
  using compare_strings_total compare_strings_trans by blast

text \<open>
  C6, as the specification states it, fails: for a query that is empty after trimming,
  the engine returns the first candidates in the order in which they were given. Every
  candidate is then a prefix match, the shorter name has the smaller distance, and it
  comes second.
\<close>

theorem ranking_order_counterexample:
  "rankCandidates example_host [] [''ab'', ''a''] 4 = [''ab'', ''a''] \<and>
   eligible_candidate [] ''ab'' \<and> eligible_candidate [] ''a'' \<and>
   rank_key [] ''a'' = (0, 1) \<and> rank_key [] ''ab'' = (0, 2) \<and>
   key_less (rank_key [] ''a'') (rank_key [] ''ab'')"
  by code_simp

text \<open>
  The sort compares the scores \<open>group * 100 + distance\<close>. A prefix match at distance 102
  has the score 102 and comes after a substring match at distance 1, whose score is 101.
\<close>

lemma ranking_weight_example:
  "rankCandidates example_host ''a'' [''a'' @ replicate 102 (CHR ''b''), ''ba''] 4 =
     [''ba'', ''a'' @ replicate 102 (CHR ''b'')] \<and>
   rank_key ''a'' (''a'' @ replicate 102 (CHR ''b'')) = (0, 102) \<and>
   rank_key ''a'' ''ba'' = (1, 1)"
  by code_simp

text \<open>
  C6, amended. For a query that is empty after trimming and lower-casing, the engine
  returns the candidates in the order given, truncated to the limit. For every other
  query, the result is the truncation to the limit of a permutation of the eligible
  candidates; where the edit distances of the candidates are below 100, it is ordered by
  the key (group, distance) compared lexicographically - group 0 for prefix matches, 1
  for substring matches, 2 otherwise - so that no candidate with a strictly smaller key
  appears after one with a larger key, and, where the host's comparison of names is a
  total preorder, candidates with equal keys are ordered by that comparison.
\<close>

theorem ranking_order:
  "(toLowerCase (trim query) = [] \<longrightarrow> rankCandidates h query cs limit = slice0 cs limit) \<and>
   (toLowerCase (trim query) = q \<and> q \<noteq> [] \<longrightarrow>
      rankCandidates h query cs limit = slice0 (full_ranking h q cs) limit \<and>
      mset (full_ranking h q cs) = mset (filter (eligible_candidate q) cs)) \<and>
   (toLowerCase (trim query) = q \<and> q \<noteq> [] \<and> 0 \<le> limit \<longrightarrow>
      rankCandidates h query cs limit = take (nat limit) (full_ranking h q cs)) \<and>
   (toLowerCase (trim query) = q \<and> q \<noteq> [] \<and> (\<forall>c \<in> set cs. distance_of q c < 100) \<longrightarrow>
      sorted_wrt (\<lambda>c d. \<not> key_less (rank_key q d) (rank_key q c))
        (rankCandidates h query cs limit)) \<and>
   (toLowerCase (trim query) = q \<and> q \<noteq> [] \<and> (\<forall>c \<in> set cs. distance_of q c < 100) \<and>
    consistent_compare (localeCompare h) \<longrightarrow>
      sorted_wrt (ranked_before (localeCompare h) q) (rankCandidates h query cs limit))"
proof -
  have blank: "rankCandidates h query cs limit = slice0 cs limit"
    if "toLowerCase (trim query) = []"
    using that by (simp add: rankCandidates_eq)
  have full: "rankCandidates h query cs limit = slice0 (full_ranking h q cs) limit"
    if "toLowerCase (trim query) = q \<and> q \<noteq> []"
    using that by (auto simp: rankCandidates_eq)
  have keys: "sorted_wrt (\<lambda>c d. \<not> key_less (rank_key q d) (rank_key q c))
        (rankCandidates h query cs limit)"
    if "toLowerCase (trim query) = q \<and> q \<noteq> [] \<and> (\<forall>c \<in> set cs. distance_of q c < 100)"
    using that full full_ranking_by_key [of cs q h] by (simp add: sorted_wrt_slice0)
  have ties: "sorted_wrt (ranked_before (localeCompare h) q) (rankCandidates h query cs limit)"
    if "toLowerCase (trim query) = q \<and> q \<noteq> [] \<and> (\<forall>c \<in> set cs. distance_of q c < 100) \<and>
        consistent_compare (localeCompare h)"
    using that full full_ranking_ties [of cs q h] by (simp add: sorted_wrt_slice0)
  have cut: "rankCandidates h query cs limit = take (nat limit) (full_ranking h q cs)"
    if "toLowerCase (trim query) = q \<and> q \<noteq> [] \<and> 0 \<le> limit"
    using that full by (simp add: slice0_def)
  from blank full cut keys ties mset_full_ranking [of h q cs] show ?thesis
    by blast
qed

theorem ranking_order_witness:
  "rankCandidates example_host '' '' [''b'', ''a''] 1 = [''b''] \<and>
   rankCandidates example_host '' C'' [''back'', ''cd'', ''Cat'', ''summary''] 2 =
     slice0 (full_ranking example_host ''c'' [''back'', ''cd'', ''Cat'', ''summary'']) 2 \<and>
   mset (full_ranking example_host ''c'' [''back'', ''cd'', ''Cat'', ''summary'']) =
     mset [''back'', ''cd'', ''Cat''] \<and>
   sorted_wrt (\<lambda>c d. \<not> key_less (rank_key ''c'' d) (rank_key ''c'' c))
     (rankCandidates example_host '' C'' [''back'', ''cd'', ''Cat'', ''summary''] 2) \<and>
   sorted_wrt (ranked_before compare_strings ''c'')
     (rankCandidates example_host '' C'' [''back'', ''cd'', ''Cat'', ''summary''] 2) \<and>
   rankCandidates example_host '' C'' [''back'', ''cd'', ''Cat'', ''summary''] 2 = [''cd'', ''Cat'']"
proof -
  let ?cs = "[''back'', ''cd'', ''Cat'', ''summary'']"
  have blank: "toLowerCase (trim '' '') = []"
    by code_simp
  have q: "toLowerCase (trim '' C'') = ''c''"
    by code_simp
  have d: "\<forall>c \<in> set ?cs. distance_of ''c'' c < 100"
    by code_simp
  have e: "filter (eligible_candidate ''c'') ?cs = [''back'', ''cd'', ''Cat'']"
    by code_simp
  have v: "rankCandidates example_host '' C'' ?cs 2 = [''cd'', ''Cat'']"
    by code_simp
  have lc: "consistent_compare (localeCompare example_host)"
    by (simp add: example_host_def compare_strings_consistent)
  have s: "slice0 [''b'', ''a''] 1 = [''b'']"
    by (simp add: slice0_def)
  from ranking_order [of "'' ''" example_host "[''b'', ''a'']" 1] blank s
  have c1: "rankCandidates example_host '' '' [''b'', ''a''] 1 = [''b'']"
    by simp
  from ranking_order [of "'' C''" example_host ?cs 2 "''c''"] q d lc
  have c2: "rankCandidates example_host '' C'' ?cs 2 = slice0 (full_ranking example_host ''c'' ?cs) 2"
    and c3: "mset (full_ranking example_host ''c'' ?cs) = mset (filter (eligible_candidate ''c'') ?cs)"
    and c4: "sorted_wrt (\<lambda>c d. \<not> key_less (rank_key ''c'' d) (rank_key ''c'' c))
       (rankCandidates example_host '' C'' ?cs 2)"
    and c5: "sorted_wrt (ranked_before (localeCompare example_host) ''c'')
       (rankCandidates example_host '' C'' ?cs 2)"
    by blast+
  from c5 have c5': "sorted_wrt (ranked_before compare_strings ''c'')
       (rankCandidates example_host '' C'' ?cs 2)"
    by (simp add: example_host_def)
  from c1 c2 c3 c4 c5' e v show ?thesis
    by (simp only: simp_thms)
qed

section \<open>The ranking of \<^verbatim>\<open>hlep\<close>\<close>

lemma hlep_normal: "toLowerCase (trim ''hlep'') = ''hlep''"
  by code_simp

lemma hlep_rows:
  "filter (eligible_candidate ''hlep'') AUTOCOMPLETE_COMMANDS = [''help'']"
  by code_simp

lemma hlep_eligible: "eligible_candidate ''hlep'' ''help''"
  by code_simp

lemma hlep_only_help:
  assumes "\<forall>c \<in> set cs. c = ''help'' \<or> \<not> eligible_candidate ''hlep'' c"
  shows "set (full_ranking h ''hlep'' cs) \<subseteq> {''help''}"
proof -
  have "set (full_ranking h ''hlep'' cs) = set (filter (eligible_candidate ''hlep'') cs)"
    using mset_full_ranking [of h "''hlep''" cs] by (metis set_mset_mset)
  with assms show ?thesis by auto
qed

text \<open>
  C5, as the specification states it, fails: the distance between \<^verbatim>\<open>hlep\<close> and \<^verbatim>\<open>help\<close>
  is 2, since the engine computes the distance without transpositions; and a vocabulary
  that contains \<^verbatim>\<open>help\<close> may contain a closer candidate, which is ranked first.
\<close>

theorem hlep_counterexample:
  "levenshteinDistance ''hlep'' ''help'' = 2 \<and>
   levenshteinDistance ''hlep'' ''hep'' = 1 \<and>
   rankCandidates example_host ''hlep'' [''help'', ''hep''] 4 = [''hep'', ''help'']"
  by code_simp

text \<open>
  C5, amended. The edit distance between \<^verbatim>\<open>hlep\<close> and \<^verbatim>\<open>help\<close> is 2, which is the
  threshold of a query of length 4, so that \<^verbatim>\<open>help\<close> is eligible. The ranking of the
  query \<^verbatim>\<open>hlep\<close> against the command vocabulary of the shell is \<^verbatim>\<open>help\<close> alone, and the
  ranking against any vocabulary that contains \<^verbatim>\<open>help\<close> and in which no other candidate
  is eligible has \<^verbatim>\<open>help\<close> first, for every limit of at least 1.
\<close>

theorem hlep_ranks_help:
  "levenshteinDistance ''hlep'' ''help'' = 2 \<and>
   getMaxEditDistance (length ''hlep'') = 2 \<and>
   rankCandidates h ''hlep'' AUTOCOMPLETE_COMMANDS 4 = [''help''] \<and>
   (''help'' \<in> set cs \<and> 1 \<le> limit \<and>
    (\<forall>c \<in> set cs. c = ''help'' \<or> \<not> eligible_candidate ''hlep'' c) \<longrightarrow>
      rankCandidates h ''hlep'' cs limit \<noteq> [] \<and> hd (rankCandidates h ''hlep'' cs limit) = ''help'')"
proof -
  have d: "levenshteinDistance ''hlep'' ''help'' = 2"
    and t: "getMaxEditDistance (length ''hlep'') = 2"
    by code_simp+
  have "full_ranking h ''hlep'' AUTOCOMPLETE_COMMANDS = [''help'']"
    by (simp add: full_ranking_eq hlep_rows)
  then have v: "rankCandidates h ''hlep'' AUTOCOMPLETE_COMMANDS 4 = [''help'']"
    by (simp add: rankCandidates_eq hlep_normal slice0_def)
  have g: "rankCandidates h ''hlep'' cs limit \<noteq> [] \<and> hd (rankCandidates h ''hlep'' cs limit) = ''help''"
    if a: "''help'' \<in> set cs \<and> 1 \<le> limit \<and>
      (\<forall>c \<in> set cs. c = ''help'' \<or> \<not> eligible_candidate ''hlep'' c)"
  proof -
    let ?full = "full_ranking h ''hlep'' cs"
    from a have sub: "set ?full \<subseteq> {''help''}"
      using hlep_only_help [of cs h] by simp
    from a have "''help'' \<in> set (filter (eligible_candidate ''hlep'') cs)"
      by (simp add: hlep_eligible)
    then have "''help'' \<in> set ?full"
      using mset_full_ranking [of h "''hlep''" cs] by (metis set_mset_mset)
    then obtain x xs where f: "?full = x # xs"
      by (cases ?full) auto
    with sub have "x = ''help''" by auto
    moreover from a obtain k where "nat limit = Suc k"
      by (cases "nat limit") auto
    ultimately show ?thesis
      using f a by (simp add: rankCandidates_eq hlep_normal slice0_def)
  qed
  from d t v g show ?thesis
    by blast
qed

theorem hlep_ranks_help_witness:
  "rankCandidates example_host ''hlep'' AUTOCOMPLETE_COMMANDS 4 = [''help''] \<and>
   ''help'' \<in> set [''ls'', ''help'', ''cd''] \<and>
   rankCandidates example_host ''hlep'' [''ls'', ''help'', ''cd''] 1 \<noteq> [] \<and>
   hd (rankCandidates example_host ''hlep'' [''ls'', ''help'', ''cd''] 1) = ''help''"
proof -
  have m: "''help'' \<in> set [''ls'', ''help'', ''cd'']"
    by simp
  have e: "\<forall>c \<in> set [''ls'', ''help'', ''cd'']. c = ''help'' \<or> \<not> eligible_candidate ''hlep'' c"
    by code_simp
  have l: "(1::int) \<le> 1"
    by simp
  from hlep_ranks_help [of example_host "[''ls'', ''help'', ''cd'']" 1] m e l show ?thesis
    by blast
qed

end

